theory Spec2Isabelle
  imports Complex_Main
begin

section \<open>Data model (\<^verbatim>\<open>bus_analysis/myutils.py\<close>)\<close>

text \<open>
  A \<^verbatim>\<open>datetime\<close> is modelled by its position on the time line, counted in
  microseconds (the resolution of Python's \<^verbatim>\<open>datetime\<close>); comparing two datetimes
  is comparing these integers, and their difference is a \<^verbatim>\<open>timedelta\<close>, again a
  number of microseconds. A Python \<^verbatim>\<open>float\<close> is modelled by the real number it
  denotes; the rounding of floating-point arithmetic is not modelled, and the
  non-finite floats are not values of the model. Python's \<^verbatim>\<open>int\<close>
  is \<^typ>\<open>int\<close>. An exception is a value of type \<open>error\<close>, and a function that can
  raise returns \<open>error + 'a\<close>.
\<close>

type_synonym datetime = int

type_synonym timedelta = int

datatype error = KeyError | ValueError | TypeError | ZeroDivisionError | URLError

text \<open>Deserialised JSON, as \<^verbatim>\<open>json.loads\<close> returns it; a \<^verbatim>\<open>dict\<close> is the list of
  its items in insertion order, looked up with \<^const>\<open>map_of\<close>.\<close>

datatype json =
    JNull
  | JBool bool
  | JInt int
  | JFloat real
  | JStr string
  | JList "json list"
  | JObj "(string \<times> json) list"

type_synonym VehicleNumberType = string

record Position =
  lat :: real
  lon :: real

record BusRecord =
  vehicle_number :: VehicleNumberType
  line :: string
  brigade :: string
  time :: datetime
  pos :: Position

text \<open>\<^verbatim>\<open>BusRecord.__eq__\<close> and \<^verbatim>\<open>BusRecord.__hash__\<close> compare and hash the pair of
  vehicle number and time only: membership of a record in a \<^verbatim>\<open>set[BusRecord]\<close> is
  membership of this pair.\<close>

definition bus_key :: "BusRecord \<Rightarrow> VehicleNumberType \<times> datetime" where
  "bus_key r = (vehicle_number r, time r)"

text \<open>\<^verbatim>\<open>Position.distance_to\<close> returns \<^verbatim>\<open>geopy.distance.great_circle(...).m\<close>.
  The library builds a point from each of the two positions, first from \<^verbatim>\<open>self\<close>,
  then from \<^verbatim>\<open>other\<close>, and raises \<^verbatim>\<open>ValueError\<close> for a latitude outside
  \<open>[-90, 90]\<close>; a longitude is wrapped into range and never refused. For two points it
  accepts, the distance in metres that it computes is a parameter \<open>great_circle\<close> of
  the model.\<close>

definition valid_latitude :: "Position \<Rightarrow> bool" where
  "valid_latitude p \<longleftrightarrow> - 90 \<le> lat p \<and> lat p \<le> 90"

definition distance_to ::
  "(Position \<Rightarrow> Position \<Rightarrow> real) \<Rightarrow> Position \<Rightarrow> Position \<Rightarrow> error + real" where
  "distance_to great_circle self other =
     (if \<not> valid_latitude self then Inl ValueError
      else if \<not> valid_latitude other then Inl ValueError
      else Inr (great_circle self other))"

record TimeParser =
  time_format :: string

text \<open>\<^verbatim>\<open>TimeParser.parse_to_str\<close> is \<^verbatim>\<open>time.strftime(self._time_format)\<close>. The
  formatting routine of the standard library is a parameter \<open>strftime\<close> of the model
  (datetime first, format second).\<close>

definition parse_to_str :: "(datetime \<Rightarrow> string \<Rightarrow> string) \<Rightarrow> TimeParser \<Rightarrow> datetime \<Rightarrow> string" where
  "parse_to_str strftime tp t = strftime t (time_format tp)"

record BusRecordingStatistics =
  n_requests :: int
  n_successful_requests :: int
  n_records :: int
  processing_start_time :: datetime
  processing_end_time :: datetime

text \<open>The constructor \<^verbatim>\<open>BusRecordingStatistics(n_requests, n_successful_requests)\<close> with
  the remaining arguments at their defaults: no record, and for the two times the
  values \<open>t_start\<close> and \<open>t_end\<close> that the two calls of \<^verbatim>\<open>datetime.now()\<close> in the
  signature returned when the class was defined.\<close>

definition new_statistics :: "datetime \<Rightarrow> datetime \<Rightarrow> int \<Rightarrow> int \<Rightarrow> BusRecordingStatistics" where
  "new_statistics t_start t_end n_req n_succ =
     \<lparr> n_requests = n_req, n_successful_requests = n_succ, n_records = 0,
       processing_start_time = t_start, processing_end_time = t_end \<rparr>"

text \<open>\<^verbatim>\<open>BusRecordingStatistics.to_json\<close>: the dict literal, in the order it is written.\<close>

definition to_json ::
  "(datetime \<Rightarrow> string \<Rightarrow> string) \<Rightarrow> BusRecordingStatistics \<Rightarrow> TimeParser \<Rightarrow> (string \<times> json) list" where
  "to_json strftime self time_parser =
     (let start_time_str = parse_to_str strftime time_parser (processing_start_time self);
          end_time_str = parse_to_str strftime time_parser (processing_end_time self)
      in [(''Number of requests'', JInt (n_requests self)),
          (''Number of successful requests'', JInt (n_successful_requests self)),
          (''Number of records'', JInt (n_records self)),
          (''Processing start time'', JStr start_time_str),
          (''Processing end time'', JStr end_time_str)])"

text \<open>\<^verbatim>\<open>BusRecordingStatistics.add_requests_and_records_info\<close>.\<close>

definition add_requests_and_records_info ::
  "BusRecordingStatistics \<Rightarrow> BusRecordingStatistics \<Rightarrow> BusRecordingStatistics" where
  "add_requests_and_records_info self other =
     \<lparr> n_requests = n_requests self + n_requests other,
       n_successful_requests = n_successful_requests self + n_successful_requests other,
       n_records = n_records self + n_records other,
       processing_start_time = processing_start_time self,
       processing_end_time = processing_end_time other \<rparr>"

section \<open>Speeds (\<^verbatim>\<open>bus_analysis/myutils.py\<close>)\<close>

text \<open>\<^verbatim>\<open>timedelta.total_seconds()\<close>.\<close>

definition total_seconds :: "timedelta \<Rightarrow> real" where
  "total_seconds d = real_of_int d / 1000000"

text \<open>Python's \<^verbatim>\<open>/\<close> on two floats: a zero divisor raises \<^verbatim>\<open>ZeroDivisionError\<close>.\<close>

definition py_truediv :: "real \<Rightarrow> real \<Rightarrow> error + real" where
  "py_truediv x y = (if y = 0 then Inl ZeroDivisionError else Inr (x / y))"

text \<open>\<^verbatim>\<open>get_speed\<close>: distance over elapsed time, in metres per second. The distance
  is computed first, so an exception of \<^verbatim>\<open>distance_to\<close> comes before the
  division.\<close>

definition get_speed :: "(Position \<Rightarrow> Position \<Rightarrow> real) \<Rightarrow> BusRecord \<Rightarrow> BusRecord \<Rightarrow> error + real" where
  "get_speed great_circle rec1 rec2 =
     (case distance_to great_circle (pos rec1) (pos rec2) of
        Inl e \<Rightarrow> Inl e
      | Inr metres \<Rightarrow>
          (let dist = metres;
               t_delta = total_seconds (time rec2 - time rec1)
           in py_truediv dist t_delta))"

text \<open>\<^verbatim>\<open>get_speeds\<close>: the list starts as \<^verbatim>\<open>[None]\<close> and the loop runs over
  \<^verbatim>\<open>range(1, len(_bus_recs))\<close>, here the list of indices still to visit. An exception
  raised by \<^verbatim>\<open>get_speed\<close> leaves the loop and the function.\<close>

fun get_speeds_loop ::
  "(Position \<Rightarrow> Position \<Rightarrow> real) \<Rightarrow> BusRecord list \<Rightarrow> nat list \<Rightarrow> real option list
     \<Rightarrow> error + real option list" where
  "get_speeds_loop great_circle bus_recs [] speeds = Inr speeds"
| "get_speeds_loop great_circle bus_recs (i # rest) speeds =
     (let prev = bus_recs ! (i - 1);
          rec = bus_recs ! i
      in if vehicle_number prev = vehicle_number rec
         then (case get_speed great_circle prev rec of
                 Inl e \<Rightarrow> Inl e
               | Inr s \<Rightarrow> get_speeds_loop great_circle bus_recs rest (speeds @ [Some s]))
         else get_speeds_loop great_circle bus_recs rest (speeds @ [None]))"

definition get_speeds :: "(Position \<Rightarrow> Position \<Rightarrow> real) \<Rightarrow> BusRecord list \<Rightarrow> error + real option list" where
  "get_speeds great_circle bus_recs = get_speeds_loop great_circle bus_recs [1..<length bus_recs] [None]"

section \<open>Speed report and positions of interest (\<^verbatim>\<open>bus_analysis/myutils.py\<close>)\<close>

text \<open>\<^verbatim>\<open>print_bus_speed_info\<close> prints one of two lines and returns nothing; the model
  returns what is printed. \<open>NoBuses speed_type\<close> stands for
  \<^verbatim>\<open>There are no {speed_type} buses!\<close> and \<open>SpeedInfo n p k\<close> for
  \<^verbatim>\<open>There are {n} ({p} %) buses that breached the speed of {k} km/h.\<close>, with \<open>p\<close>
  and \<open>k\<close> the numbers before they are formatted.\<close>

datatype printed = NoBuses string | SpeedInfo int real real

fun speeding_loop ::
  "(BusRecord \<times> real option) list \<Rightarrow> real \<Rightarrow> real option \<Rightarrow> VehicleNumberType set
     \<Rightarrow> VehicleNumberType set" where
  "speeding_loop [] min_speed max_speed speeding_bus_vehicle_nums = speeding_bus_vehicle_nums"
| "speeding_loop ((rec, speed) # rest) min_speed max_speed speeding_bus_vehicle_nums =
     (if vehicle_number rec \<notin> speeding_bus_vehicle_nums
         \<and> speed \<noteq> None
         \<and> min_speed < the speed
         \<and> (max_speed = None \<or> the speed < the max_speed)
      then speeding_loop rest min_speed max_speed
             (insert (vehicle_number rec) speeding_bus_vehicle_nums)
      else speeding_loop rest min_speed max_speed speeding_bus_vehicle_nums)"

definition print_bus_speed_info ::
  "(BusRecord \<times> real option) list \<Rightarrow> string \<Rightarrow> real \<Rightarrow> real option \<Rightarrow> printed" where
  "print_bus_speed_info bus_speeds speed_type min_speed max_speed =
     (if bus_speeds = [] then NoBuses speed_type
      else (let speeding_bus_vehicle_nums = speeding_loop bus_speeds min_speed max_speed {};
                n_speeding_buses = int (card speeding_bus_vehicle_nums);
                n_buses = int (card (set (map (\<lambda>x. vehicle_number (fst x)) bus_speeds)))
            in SpeedInfo n_speeding_buses
                 (real_of_int n_speeding_buses / real_of_int n_buses * 100)
                 (min_speed * 3.6)))"

text \<open>\<^verbatim>\<open>get_positions_of_interest\<close>. The inner loop runs over the whole input for the
  seed \<open>rec\<close>; the outer loop runs over the input with the set \<open>visited\<close> and the
  result list threaded through. The condition of the inner loop is an \<^verbatim>\<open>and\<close>: the
  distance is computed only for a record that is not yet visited, and an exception of
  \<^verbatim>\<open>distance_to\<close> leaves both loops. The progress percentage written to standard
  output after each seed does not enter the returned list and is left out.\<close>

fun vicinity_loop ::
  "(Position \<Rightarrow> Position \<Rightarrow> real) \<Rightarrow> BusRecord \<Rightarrow> (BusRecord \<times> real option) list
     \<Rightarrow> (VehicleNumberType \<times> datetime) set \<Rightarrow> int
     \<Rightarrow> error + (VehicleNumberType \<times> datetime) set \<times> int" where
  "vicinity_loop great_circle rec [] visited n_buses_in_vicinity =
     Inr (visited, n_buses_in_vicinity)"
| "vicinity_loop great_circle rec ((rec2, speed2) # rest) visited n_buses_in_vicinity =
     (if bus_key rec2 \<notin> visited
      then (case distance_to great_circle (pos rec) (pos rec2) of
              Inl e \<Rightarrow> Inl e
            | Inr d \<Rightarrow>
                (if d < 100
                 then vicinity_loop great_circle rec rest (insert (bus_key rec2) visited)
                        (n_buses_in_vicinity + 1)
                 else vicinity_loop great_circle rec rest visited n_buses_in_vicinity))
      else vicinity_loop great_circle rec rest visited n_buses_in_vicinity)"

fun positions_loop ::
  "(Position \<Rightarrow> Position \<Rightarrow> real) \<Rightarrow> (BusRecord \<times> real option) list
     \<Rightarrow> (BusRecord \<times> real option) list \<Rightarrow> (VehicleNumberType \<times> datetime) set
     \<Rightarrow> (Position \<times> int) list \<Rightarrow> error + (Position \<times> int) list" where
  "positions_loop great_circle bus_speeds [] visited pos_speeds = Inr pos_speeds"
| "positions_loop great_circle bus_speeds ((rec, speed) # rest) visited pos_speeds =
     (if bus_key rec \<in> visited
      then positions_loop great_circle bus_speeds rest visited pos_speeds
      else (case vicinity_loop great_circle rec bus_speeds (insert (bus_key rec) visited) 1 of
              Inl e \<Rightarrow> Inl e
            | Inr (visited', n_buses_in_vicinity) \<Rightarrow>
                positions_loop great_circle bus_speeds rest visited'
                  (pos_speeds @ [(pos rec, n_buses_in_vicinity)])))"

definition get_positions_of_interest ::
  "(Position \<Rightarrow> Position \<Rightarrow> real) \<Rightarrow> (BusRecord \<times> real option) list
     \<Rightarrow> error + (Position \<times> int) list" where
  "get_positions_of_interest great_circle bus_speeds =
     positions_loop great_circle bus_speeds bus_speeds {} []"

section \<open>Recording loop (\<^verbatim>\<open>bus_analysis/data_downloader.py\<close>)\<close>

text \<open>
  The recording loop reads the wall clock and the network. Both are inputs of the model:
  \<open>clock\<close> is the list of values that the successive calls of \<^verbatim>\<open>datetime.now()\<close>
  in the loop condition return, and \<open>network\<close> is the list of outcomes of the successive
  calls of \<^verbatim>\<open>_download_json\<close>, each either the exception it raised (\<open>Inl\<close>) or the
  deserialised response (\<open>Inr\<close>). A function that runs out of either list before it
  returns has the value \<open>None\<close>. Messages handed to \<^verbatim>\<open>logging\<close> are appended to a
  list of log records. The pause made by \<^verbatim>\<open>_delay\<close> has no effect on any value.
\<close>

type_synonym response = "(string \<times> json) list"

datatype log_record =
    RequestingBusData
  | NewRecords nat
  | ApiErrorWarning json
  | ParseErrorWarning

text \<open>\<^verbatim>\<open>is_response_json_valid\<close>:
  \<^verbatim>\<open>'result' in response and isinstance(response['result'], list)\<close>.\<close>

definition is_response_json_valid :: "response \<Rightarrow> bool" where
  "is_response_json_valid response =
     (case map_of response ''result'' of
        None \<Rightarrow> False
      | Some result \<Rightarrow> (case result of JList _ \<Rightarrow> True | _ \<Rightarrow> False))"

text \<open>\<^verbatim>\<open>log_api_error\<close> formats \<^verbatim>\<open>response["result"]\<close> into a warning; the
  subscript raises \<^verbatim>\<open>KeyError\<close> when the key is absent.\<close>

definition log_api_error :: "response \<Rightarrow> log_record list \<Rightarrow> error + log_record list" where
  "log_api_error response logs =
     (case map_of response ''result'' of
        None \<Rightarrow> Inl KeyError
      | Some result \<Rightarrow> Inr (logs @ [ApiErrorWarning result]))"

text \<open>\<^verbatim>\<open>_download_valid_json\<close> with \<^verbatim>\<open>return_n_requests=True\<close>: the
  \<^verbatim>\<open>while True\<close> loop, one outcome of \<^verbatim>\<open>_download_json\<close> per turn. The result
  carries the outcomes not yet consumed and the log.\<close>

fun download_valid_json_loop ::
  "(error + response) list \<Rightarrow> int \<Rightarrow> log_record list
     \<Rightarrow> ((error + response \<times> int) \<times> (error + response) list \<times> log_record list) option" where
  "download_valid_json_loop [] n_req logs = None"
| "download_valid_json_loop (Inl e # network) n_req logs = Some (Inl e, network, logs)"
| "download_valid_json_loop (Inr response # network) n_req logs =
     (let n_req = n_req + 1
      in if is_response_json_valid response
         then Some (Inr (response, n_req), network, logs)
         else (case log_api_error response logs of
                 Inl e \<Rightarrow> Some (Inl e, network, logs)
               | Inr logs' \<Rightarrow> download_valid_json_loop network n_req logs'))"

definition download_valid_json ::
  "(error + response) list \<Rightarrow> log_record list
     \<Rightarrow> ((error + response \<times> int) \<times> (error + response) list \<times> log_record list) option" where
  "download_valid_json network logs = download_valid_json_loop network 0 logs"

text \<open>\<^verbatim>\<open>_parse_bus_records\<close>: the \<^verbatim>\<open>for\<close> loop over
  \<^verbatim>\<open>buses_json['result']\<close>, where a \<^verbatim>\<open>ValueError\<close> of the entry parser is logged and
  the entry skipped, and any other exception leaves the function. Iterating a string
  yields its characters, iterating a dict its keys, and a number, a boolean or
  \<^verbatim>\<open>None\<close> cannot be iterated. The entry parser \<open>from_json\<close> stands for
  \<^verbatim>\<open>get_bus_record_from_json\<close> applied with the session's time parser, whose
  \<^verbatim>\<open>strptime\<close> belongs to the standard library.\<close>

fun parse_bus_records_loop ::
  "(json \<Rightarrow> error + BusRecord) \<Rightarrow> json list \<Rightarrow> BusRecord list \<Rightarrow> log_record list
     \<Rightarrow> (error + BusRecord list) \<times> log_record list" where
  "parse_bus_records_loop from_json [] new_records logs = (Inr new_records, logs)"
| "parse_bus_records_loop from_json (bus # rest) new_records logs =
     (case from_json bus of
        Inr bus_rec \<Rightarrow>
          parse_bus_records_loop from_json rest (new_records @ [bus_rec]) logs
      | Inl e \<Rightarrow>
          (if e = ValueError
           then parse_bus_records_loop from_json rest new_records
                  (logs @ [ParseErrorWarning])
           else (Inl e, logs)))"

definition parse_bus_records ::
  "(json \<Rightarrow> error + BusRecord) \<Rightarrow> response \<Rightarrow> log_record list
     \<Rightarrow> (error + BusRecord list) \<times> log_record list" where
  "parse_bus_records from_json buses_json logs =
     (case map_of buses_json ''result'' of
        None \<Rightarrow> (Inl KeyError, logs)
      | Some result \<Rightarrow>
          (case result of
             JList buses \<Rightarrow> parse_bus_records_loop from_json buses [] logs
           | JStr s \<Rightarrow>
               parse_bus_records_loop from_json (map (\<lambda>c. JStr [c]) s) [] logs
           | JObj d \<Rightarrow>
               parse_bus_records_loop from_json (map (\<lambda>kv. JStr (fst kv)) d) [] logs
           | _ \<Rightarrow> (Inl TypeError, logs)))"

text \<open>What a recording session is given: the entry parser, the configured download
  duration, and the two default times of \<^const>\<open>new_statistics\<close>.\<close>

record Session =
  get_bus_record_from_json :: "json \<Rightarrow> error + BusRecord"
  download_duration :: timedelta
  default_start_time :: datetime
  default_end_time :: datetime

text \<open>\<^verbatim>\<open>_download_current_buses\<close>.\<close>

definition download_current_buses ::
  "Session \<Rightarrow> (error + response) list \<Rightarrow> log_record list
     \<Rightarrow> ((error + BusRecord list \<times> BusRecordingStatistics)
          \<times> (error + response) list \<times> log_record list) option" where
  "download_current_buses session network logs =
     (case download_valid_json network logs of
        None \<Rightarrow> None
      | Some (Inl e, network', logs') \<Rightarrow> Some (Inl e, network', logs')
      | Some (Inr (bus_recs, cur_n_requests), network', logs') \<Rightarrow>
          (let stats = new_statistics (default_start_time session) (default_end_time session)
                         cur_n_requests 1
           in case parse_bus_records (get_bus_record_from_json session) bus_recs logs' of
                (Inl e, logs'') \<Rightarrow> Some (Inl e, network', logs'')
              | (Inr bus_recs, logs'') \<Rightarrow> Some (Inr (bus_recs, stats), network', logs'')))"

text \<open>\<^verbatim>\<open>_is_record_valid\<close> mutates the dict \<^verbatim>\<open>last_bus_recs\<close>; the model returns the
  verdict together with the dict after the call.\<close>

definition is_record_valid ::
  "(VehicleNumberType \<rightharpoonup> datetime) \<Rightarrow> BusRecord \<Rightarrow> datetime
     \<Rightarrow> bool \<times> (VehicleNumberType \<rightharpoonup> datetime)" where
  "is_record_valid last_bus_recs bus_rec time_of_start =
     (let veh_num = vehicle_number bus_rec
      in if (case last_bus_recs veh_num of
               None \<Rightarrow> False
             | Some t \<Rightarrow> t \<ge> time bus_rec)
         then (False, last_bus_recs)
         else (time bus_rec > time_of_start, last_bus_recs(veh_num \<mapsto> time bus_rec)))"

text \<open>The list comprehension \<^verbatim>\<open>valid_buses\<close> of \<^verbatim>\<open>_record_buses_loop\<close>: the records
  of one batch are checked from left to right, each check seeing the dict as the checks
  before it left it.\<close>

fun valid_buses ::
  "(VehicleNumberType \<rightharpoonup> datetime) \<Rightarrow> BusRecord list \<Rightarrow> datetime
     \<Rightarrow> BusRecord list \<times> (VehicleNumberType \<rightharpoonup> datetime)" where
  "valid_buses last_bus_recs [] time_of_start = ([], last_bus_recs)"
| "valid_buses last_bus_recs (bus_rec # cur_bus_recs) time_of_start =
     (case is_record_valid last_bus_recs bus_rec time_of_start of
        (ok, last_bus_recs') \<Rightarrow>
          (case valid_buses last_bus_recs' cur_bus_recs time_of_start of
             (rest, last_bus_recs'') \<Rightarrow> (if ok then bus_rec # rest else rest, last_bus_recs'')))"

text \<open>\<^verbatim>\<open>_record_buses_loop\<close>: the \<^verbatim>\<open>while datetime.now() < time_of_end\<close> loop with
  its three variables \<^verbatim>\<open>bus_recs\<close>, \<^verbatim>\<open>last_bus_recs\<close> and \<^verbatim>\<open>stats\<close>, one clock
  reading per test of the condition.\<close>

fun record_buses_while ::
  "Session \<Rightarrow> datetime \<Rightarrow> datetime \<Rightarrow> datetime list \<Rightarrow> (error + response) list
     \<Rightarrow> log_record list \<Rightarrow> BusRecord list \<Rightarrow> (VehicleNumberType \<rightharpoonup> datetime)
     \<Rightarrow> BusRecordingStatistics
     \<Rightarrow> ((error + BusRecord list \<times> BusRecordingStatistics) \<times> log_record list) option" where
  "record_buses_while session time_of_start time_of_end [] network logs
     bus_recs last_bus_recs stats = None"
| "record_buses_while session time_of_start time_of_end (now # clock) network logs
     bus_recs last_bus_recs stats =
     (if now < time_of_end
      then (case download_current_buses session network (logs @ [RequestingBusData]) of
              None \<Rightarrow> None
            | Some (Inl e, network', logs') \<Rightarrow> Some (Inl e, logs')
            | Some (Inr (cur_bus_recs, cur_stats), network', logs') \<Rightarrow>
                (case valid_buses last_bus_recs cur_bus_recs time_of_start of
                   (valid, last_bus_recs') \<Rightarrow>
                     record_buses_while session time_of_start time_of_end clock network'
                       (logs' @ [NewRecords (length valid)])
                       (bus_recs @ valid) last_bus_recs'
                       (add_requests_and_records_info stats cur_stats)))
      else Some (Inr (bus_recs, stats), logs))"

definition record_buses_loop ::
  "Session \<Rightarrow> datetime \<Rightarrow> datetime list \<Rightarrow> (error + response) list \<Rightarrow> log_record list
     \<Rightarrow> ((error + BusRecord list \<times> BusRecordingStatistics) \<times> log_record list) option" where
  "record_buses_loop session time_of_start clock network logs =
     record_buses_while session time_of_start (time_of_start + download_duration session)
       clock network logs [] Map.empty
       (new_statistics (default_start_time session) (default_end_time session) 0 0)"

section \<open>Notions used in the statements and proofs\<close>

text \<open>The speed that the specification gives for index \<open>i > 0\<close>: distance over elapsed
  seconds when records \<open>i - 1\<close> and \<open>i\<close> belong to the same vehicle, undefined
  otherwise.\<close>

definition speed_at :: "(Position \<Rightarrow> Position \<Rightarrow> real) \<Rightarrow> BusRecord list \<Rightarrow> nat \<Rightarrow> real option" where
  "speed_at great_circle bus_recs i =
     (if vehicle_number (bus_recs ! (i - 1)) = vehicle_number (bus_recs ! i)
      then Some (great_circle (pos (bus_recs ! (i - 1))) (pos (bus_recs ! i))
                   / total_seconds (time (bus_recs ! i) - time (bus_recs ! (i - 1))))
      else None)"

text \<open>Records \<open>i - 1\<close> and \<open>i\<close> belong to the same vehicle and carry the same time.\<close>

definition zero_delta_at :: "BusRecord list \<Rightarrow> nat \<Rightarrow> bool" where
  "zero_delta_at bus_recs i \<longleftrightarrow>
     vehicle_number (bus_recs ! (i - 1)) = vehicle_number (bus_recs ! i)
     \<and> time (bus_recs ! (i - 1)) = time (bus_recs ! i)"

text \<open>The computation of the speed at index \<open>i\<close> raises: records \<open>i - 1\<close> and \<open>i\<close> belong
  to the same vehicle, and one of their latitudes is out of range or their times are
  equal.\<close>

definition raises_at :: "BusRecord list \<Rightarrow> nat \<Rightarrow> bool" where
  "raises_at bus_recs i \<longleftrightarrow>
     vehicle_number (bus_recs ! (i - 1)) = vehicle_number (bus_recs ! i)
     \<and> (\<not> valid_latitude (pos (bus_recs ! (i - 1)))
        \<or> \<not> valid_latitude (pos (bus_recs ! i))
        \<or> time (bus_recs ! (i - 1)) = time (bus_recs ! i))"

text \<open>A sample lies in the speed band when its speed is known, strictly above the lower
  bound and, if there is an upper bound, strictly below it.\<close>

definition in_open_band :: "real \<Rightarrow> real option \<Rightarrow> real option \<Rightarrow> bool" where
  "in_open_band min_speed max_speed speed \<longleftrightarrow>
     (case speed of
        None \<Rightarrow> False
      | Some s \<Rightarrow> min_speed < s \<and> (case max_speed of None \<Rightarrow> True | Some m \<Rightarrow> s < m))"

text \<open>
  Hotspot clustering in the words of the specification, for comparison with
  \<^const>\<open>get_positions_of_interest\<close>: the first record not yet visited is the seed;
  every other unvisited record closer than 100 metres to the seed joins its cluster;
  the cluster is reported as the seed's position with the number of its members; the
  records left over are clustered in the same way. Membership looks at the distance
  to the seed only.
\<close>

definition near_seed ::
  "(Position \<Rightarrow> Position \<Rightarrow> real) \<Rightarrow> BusRecord \<Rightarrow> BusRecord \<times> real option \<Rightarrow> bool" where
  "near_seed great_circle seed x \<longleftrightarrow> great_circle (pos seed) (pos (fst x)) < 100"

function seed_clusters_spec ::
  "(Position \<Rightarrow> Position \<Rightarrow> real) \<Rightarrow> (BusRecord \<times> real option) list \<Rightarrow> (Position \<times> int) list" where
  "seed_clusters_spec great_circle [] = []"
| "seed_clusters_spec great_circle ((seed, speed) # unvisited) =
     (pos seed, 1 + int (length (filter (near_seed great_circle seed) unvisited)))
       # seed_clusters_spec great_circle
           (filter (\<lambda>x. \<not> near_seed great_circle seed x) unvisited)"
  by pat_completeness auto
termination
  by (relation "measure (\<lambda>(great_circle, xs). length xs)") (auto simp: less_Suc_eq_le)

text \<open>Invariant of the recording loop for a session that started at \<open>S\<close>: every accepted
  record is later than \<open>S\<close> and not later than the last-seen entry of its vehicle, and
  every last-seen entry is either not later than \<open>S\<close> or the time of an accepted record
  of that vehicle.\<close>

definition last_seen_inv ::
  "datetime \<Rightarrow> BusRecord list \<Rightarrow> (VehicleNumberType \<rightharpoonup> datetime) \<Rightarrow> bool" where
  "last_seen_inv S acc seen \<longleftrightarrow>
     (\<forall>a\<in>set acc. S < time a \<and> (\<exists>t. seen (vehicle_number a) = Some t \<and> time a \<le> t))
     \<and> (\<forall>v t. seen v = Some t \<longrightarrow> t \<le> S \<or> (\<exists>a\<in>set acc. vehicle_number a = v \<and> time a = t))"

text \<open>Invariant of the recording loop for one vehicle \<open>v\<close>: its accepted records have
  strictly increasing times, none later than the vehicle's last-seen entry.\<close>

definition increasing_inv ::
  "VehicleNumberType \<Rightarrow> BusRecord list \<Rightarrow> (VehicleNumberType \<rightharpoonup> datetime) \<Rightarrow> bool" where
  "increasing_inv v acc seen \<longleftrightarrow>
     sorted_wrt (<) (map time (filter (\<lambda>r. vehicle_number r = v) acc))
     \<and> (\<forall>a\<in>set acc. vehicle_number a = v \<longrightarrow> (\<exists>t. seen v = Some t \<and> time a \<le> t))"

text \<open>A download outcome that lets an iteration of the recording loop complete: a
  response of valid shape whose entries the session's parser accepts or skips.\<close>

definition well_behaved :: "Session \<Rightarrow> error + response \<Rightarrow> bool" where
  "well_behaved session x \<longleftrightarrow>
     (case x of
        Inl e \<Rightarrow> False
      | Inr r \<Rightarrow> is_response_json_valid r
          \<and> (\<forall>logs. \<exists>bus_recs logs'.
                parse_bus_records (get_bus_record_from_json session) r logs = (Inr bus_recs, logs')))"

section \<open>Concrete inputs\<close>

text \<open>
  Instances of the parameters and sample data on which the model is run. A format
  string without conversion directives is rendered by \<^verbatim>\<open>strftime\<close> as itself. The
  distance \<open>taxicab_metres\<close> adds the differences in latitude and longitude at 111195
  metres per degree. \<open>bus_at\<close> and \<open>snapshot_entry\<close> build a record and an API entry of
  line 1, brigade 1, as the mock response of the repository's test does, and
  \<open>entry_table\<close> is an entry parser given by a finite table, every other entry
  failing with \<^verbatim>\<open>ValueError\<close> as an unparseable time does.
\<close>

definition strftime_literal :: "datetime \<Rightarrow> string \<Rightarrow> string" where
  "strftime_literal t fmt = fmt"

definition taxicab_metres :: "Position \<Rightarrow> Position \<Rightarrow> real" where
  "taxicab_metres p q = 111195 * (\<bar>lat p - lat q\<bar> + \<bar>lon p - lon q\<bar>)"

definition bus_at :: "VehicleNumberType \<Rightarrow> datetime \<Rightarrow> real \<Rightarrow> real \<Rightarrow> BusRecord" where
  "bus_at v t la lo =
     \<lparr> vehicle_number = v, line = ''1'', brigade = ''1'', time = t, pos = \<lparr> lat = la, lon = lo \<rparr> \<rparr>"

definition snapshot_entry :: "string \<Rightarrow> string \<Rightarrow> real \<Rightarrow> real \<Rightarrow> json" where
  "snapshot_entry v t la lo =
     JObj [(''Lines'', JStr ''1''), (''Lon'', JFloat lo), (''VehicleNumber'', JStr v),
           (''Time'', JStr t), (''Lat'', JFloat la), (''Brigade'', JStr ''1'')]"

definition entry_table :: "(json \<times> BusRecord) list \<Rightarrow> json \<Rightarrow> error + BusRecord" where
  "entry_table table bus_record =
     (case map_of table bus_record of None \<Rightarrow> Inl ValueError | Some bus_rec \<Rightarrow> Inr bus_rec)"

text \<open>A session of one second that started at time 0, with two snapshots of vehicle
  1000 taken ten seconds apart, and a network that answers with the first snapshot,
  then with an error message, then with both snapshots.\<close>

definition sample_session :: Session where
  "sample_session =
     \<lparr> get_bus_record_from_json =
         entry_table
           [(snapshot_entry ''1000'' ''2024-01-01 10:00:00'' 52.0 21.0,
               bus_at ''1000'' 60000000 52.0 21.0),
            (snapshot_entry ''1000'' ''2024-01-01 10:00:10'' 52.001 21.0,
               bus_at ''1000'' 70000000 52.001 21.0)],
       download_duration = 1000000,
       default_start_time = 0,
       default_end_time = 1 \<rparr>"

definition sample_network :: "(error + response) list" where
  "sample_network =
     [Inr [(''result'', JList [snapshot_entry ''1000'' ''2024-01-01 10:00:00'' 52.0 21.0])],
      Inr [(''result'', JStr ''error text'')],
      Inr [(''result'', JList [snapshot_entry ''1000'' ''2024-01-01 10:00:00'' 52.0 21.0,
                              snapshot_entry ''1000'' ''2024-01-01 10:00:10'' 52.001 21.0])]]"

section \<open>Sample records\<close>

lemma bus_at_sel [simp]:
  "vehicle_number (bus_at v t la lo) = v" "time (bus_at v t la lo) = t"
  "pos (bus_at v t la lo) = \<lparr> lat = la, lon = lo \<rparr>"
  by (simp_all add: bus_at_def)

section \<open>Recording statistics\<close>

text \<open>
  Claim C6. Merging two statistics values gives a value whose request count, successful
  request count and record count are the sums of the operands' counts, whose window
  start is the left operand's and whose window end is the right operand's; and on the
  three counts, merging is associative.
\<close>

theorem C6_merge_sums_and_associative:
  "n_requests (add_requests_and_records_info a b) = n_requests a + n_requests b
   \<and> n_successful_requests (add_requests_and_records_info a b)
       = n_successful_requests a + n_successful_requests b
   \<and> n_records (add_requests_and_records_info a b) = n_records a + n_records b
   \<and> processing_start_time (add_requests_and_records_info a b) = processing_start_time a
   \<and> processing_end_time (add_requests_and_records_info a b) = processing_end_time b
   \<and> n_requests (add_requests_and_records_info (add_requests_and_records_info a b) c)
       = n_requests (add_requests_and_records_info a (add_requests_and_records_info b c))
   \<and> n_successful_requests (add_requests_and_records_info (add_requests_and_records_info a b) c)
       = n_successful_requests (add_requests_and_records_info a (add_requests_and_records_info b c))
   \<and> n_records (add_requests_and_records_info (add_requests_and_records_info a b) c)
       = n_records (add_requests_and_records_info a (add_requests_and_records_info b c))"
  by (simp add: add_requests_and_records_info_def)

text \<open>
  The serialisation of a statistics value has five entries, not six.
\<close>

theorem C9_six_fields_counterexample:
  "length (to_json strftime_literal
      \<lparr> n_requests = 3, n_successful_requests = 2, n_records = 7,
        processing_start_time = 0, processing_end_time = 60000000 \<rparr>
      \<lparr> time_format = ''recorded'' \<rparr>) \<noteq> 6"
  by (simp add: to_json_def)

text \<open>
  Claim C9, amended. For every statistics value and every time parser, serialisation
  produces five labelled fields in this order: the request count, the successful request
  count and the record count as integers, then the start time and the end time, each
  rendered by \<^verbatim>\<open>strftime\<close> with the parser's configured time format.
\<close>

theorem C9_to_json_five_fields:
  "map fst (to_json strftime self time_parser)
     = [''Number of requests'', ''Number of successful requests'', ''Number of records'',
        ''Processing start time'', ''Processing end time'']
   \<and> map snd (to_json strftime self time_parser)
     = [JInt (n_requests self), JInt (n_successful_requests self), JInt (n_records self),
        JStr (strftime (processing_start_time self) (time_format time_parser)),
        JStr (strftime (processing_end_time self) (time_format time_parser))]
   \<and> length (to_json strftime self time_parser) = 5"
  by (simp add: to_json_def parse_to_str_def)

section \<open>The validity check\<close>

lemma is_record_valid_inv:
  assumes "last_seen_inv S acc seen" "is_record_valid seen r S = (ok, seen')"
  shows "last_seen_inv S (if ok then acc @ [r] else acc) seen'"
  using assms unfolding last_seen_inv_def is_record_valid_def Let_def
  by (auto split: if_splits option.splits) (fastforce+)?

lemma valid_buses_inv:
  "last_seen_inv S acc seen \<Longrightarrow> valid_buses seen xs S = (vs, seen') \<Longrightarrow>
     last_seen_inv S (acc @ vs) seen'"
proof (induction xs arbitrary: acc seen vs seen')
  case Nil
  then show ?case by simp
next
  case (Cons r xs)
  obtain ok seen1 where v: "is_record_valid seen r S = (ok, seen1)"
    by (cases "is_record_valid seen r S")
  obtain rest seen2 where w: "valid_buses seen1 xs S = (rest, seen2)"
    by (cases "valid_buses seen1 xs S")
  from Cons.prems(2) v w have vs: "vs = (if ok then r # rest else rest)" and s: "seen' = seen2"
    by auto
  from is_record_valid_inv [OF Cons.prems(1) v]
  have "last_seen_inv S (if ok then acc @ [r] else acc) seen1" .
  from Cons.IH [OF this w] show ?case
    by (cases ok) (simp_all add: vs s)
qed

lemma last_seen_inv_empty: "last_seen_inv S [] Map.empty"
  by (simp add: last_seen_inv_def)

lemma is_record_valid_accepts_iff:
  assumes "last_seen_inv S acc seen"
  shows "fst (is_record_valid seen r S) \<longleftrightarrow>
           \<not> (\<exists>a\<in>set acc. vehicle_number a = vehicle_number r \<and> time a \<ge> time r) \<and> S < time r"
proof (cases "seen (vehicle_number r)")
  case None
  with assms show ?thesis
    unfolding last_seen_inv_def is_record_valid_def Let_def by fastforce
next
  case (Some t)
  with assms show ?thesis
    unfolding last_seen_inv_def is_record_valid_def Let_def
    by (auto simp: not_le) (fastforce+)?
qed

lemma is_record_valid_too_old:
  "time r \<le> S \<Longrightarrow> \<not> fst (is_record_valid seen r S)"
  by (simp add: is_record_valid_def Let_def)

lemma is_record_valid_seen:
  "is_record_valid seen r S = (ok, seen') \<Longrightarrow> \<exists>t. seen' (vehicle_number r) = Some t \<and> time r \<le> t"
  by (auto simp: is_record_valid_def Let_def split: if_splits option.splits)

lemma is_record_valid_mono:
  "is_record_valid seen r S = (ok, seen') \<Longrightarrow> seen v = Some t \<Longrightarrow>
     \<exists>t'. seen' v = Some t' \<and> t \<le> t'"
  by (auto simp: is_record_valid_def Let_def split: if_splits option.splits)

lemma valid_buses_mono:
  "valid_buses seen xs S = (vs, seen') \<Longrightarrow> seen v = Some t \<Longrightarrow>
     \<exists>t'. seen' v = Some t' \<and> t \<le> t'"
proof (induction xs arbitrary: seen vs t seen')
  case Nil
  then show ?case by simp
next
  case (Cons r xs)
  obtain ok seen1 where v: "is_record_valid seen r S = (ok, seen1)"
    by (cases "is_record_valid seen r S")
  obtain rest seen2 where w: "valid_buses seen1 xs S = (rest, seen2)"
    by (cases "valid_buses seen1 xs S")
  from Cons.prems(1) v w have s: "seen' = seen2" by auto
  from is_record_valid_mono [OF v Cons.prems(2)]
  obtain t1 where t1: "seen1 v = Some t1" "t \<le> t1" by blast
  from Cons.IH [OF w t1(1)] obtain t2 where "seen2 v = Some t2" "t1 \<le> t2" by blast
  with t1 s show ?case by auto
qed

lemma valid_buses_append:
  "valid_buses seen (xs @ ys) S =
     (case valid_buses seen xs S of
        (a, seen1) \<Rightarrow> (case valid_buses seen1 ys S of (b, seen2) \<Rightarrow> (a @ b, seen2)))"
  by (induction xs arbitrary: seen) (auto split: prod.splits)

lemma valid_buses_seen_after:
  assumes "valid_buses seen (before @ r # after) S = (vs, seen')"
  shows "\<exists>t. seen' (vehicle_number r) = Some t \<and> time r \<le> t"
proof -
  obtain a seen1 where a: "valid_buses seen before S = (a, seen1)"
    by (cases "valid_buses seen before S")
  obtain ok seen2 where v: "is_record_valid seen1 r S = (ok, seen2)"
    by (cases "is_record_valid seen1 r S")
  obtain b seen3 where b: "valid_buses seen2 after S = (b, seen3)"
    by (cases "valid_buses seen2 after S")
  from assms a v b have s: "seen' = seen3"
    by (simp add: valid_buses_append)
  from is_record_valid_seen [OF v] obtain t where t: "seen2 (vehicle_number r) = Some t" "time r \<le> t"
    by blast
  from valid_buses_mono [OF b t(1)] t(2) s show ?thesis by fastforce
qed

lemma is_record_valid_blocked:
  "seen (vehicle_number r) = Some t \<Longrightarrow> time r \<le> t \<Longrightarrow> \<not> fst (is_record_valid seen r S)"
  by (simp add: is_record_valid_def Let_def)

text \<open>
  Claim C1. In a session that started at \<open>S\<close>, once any stream of fetched records has
  gone through the validity check, starting from the empty last-seen dict, a record \<open>r\<close>
  is accepted if and only if no accepted record of the same vehicle has a time at or
  after that of \<open>r\<close> and the time of \<open>r\<close> is strictly after \<open>S\<close>. A record whose time
  is not after \<open>S\<close> is rejected whatever the last-seen dict holds. The check stores the
  time of \<open>r\<close> as the last-seen entry of its vehicle, before it compares with \<open>S\<close>,
  whenever that entry is absent or earlier. Hence once a record \<open>r\<close> with a time not
  after \<open>S\<close> has gone through the check, it is not among the accepted records, and a
  record \<open>r'\<close> of the same vehicle with a time not after that of \<open>r\<close> is rejected
  however many records were fetched in between.
\<close>

theorem C1_validity_check:
  "(valid_buses Map.empty stream S = (accepted, last_bus_recs) \<longrightarrow>
      (fst (is_record_valid last_bus_recs r S) \<longleftrightarrow>
         \<not> (\<exists>a\<in>set accepted. vehicle_number a = vehicle_number r \<and> time a \<ge> time r)
         \<and> S < time r))
   \<and> (time r \<le> S \<longrightarrow> \<not> fst (is_record_valid any_last_bus_recs r S))
   \<and> ((\<forall>t. any_last_bus_recs (vehicle_number r) = Some t \<longrightarrow> t < time r) \<longrightarrow>
        snd (is_record_valid any_last_bus_recs r S) (vehicle_number r) = Some (time r))
   \<and> (time r \<le> S \<and> vehicle_number r' = vehicle_number r \<and> time r' \<le> time r \<longrightarrow>
        r \<notin> set (fst (valid_buses Map.empty (before @ r # after) S))
        \<and> \<not> fst (is_record_valid (snd (valid_buses Map.empty (before @ r # after) S)) r' S))"
proof (intro conjI impI)
  assume "valid_buses Map.empty stream S = (accepted, last_bus_recs)"
  from valid_buses_inv [OF last_seen_inv_empty this]
  have "last_seen_inv S accepted last_bus_recs" by simp
  then show "fst (is_record_valid last_bus_recs r S) \<longleftrightarrow>
         \<not> (\<exists>a\<in>set accepted. vehicle_number a = vehicle_number r \<and> time a \<ge> time r)
         \<and> S < time r"
    by (rule is_record_valid_accepts_iff)
next
  assume "time r \<le> S"
  then show "\<not> fst (is_record_valid any_last_bus_recs r S)"
    by (rule is_record_valid_too_old)
next
  assume "\<forall>t. any_last_bus_recs (vehicle_number r) = Some t \<longrightarrow> t < time r"
  then show "snd (is_record_valid any_last_bus_recs r S) (vehicle_number r) = Some (time r)"
    by (auto simp: is_record_valid_def Let_def split: option.splits)
next
  assume h: "time r \<le> S \<and> vehicle_number r' = vehicle_number r \<and> time r' \<le> time r"
  obtain vs seen' where e: "valid_buses Map.empty (before @ r # after) S = (vs, seen')"
    by (cases "valid_buses Map.empty (before @ r # after) S")
  from valid_buses_inv [OF last_seen_inv_empty e] have "last_seen_inv S vs seen'" by simp
  with h have "r \<notin> set vs" unfolding last_seen_inv_def by fastforce
  then show "r \<notin> set (fst (valid_buses Map.empty (before @ r # after) S))"
    by (simp add: e)
next
  assume h: "time r \<le> S \<and> vehicle_number r' = vehicle_number r \<and> time r' \<le> time r"
  obtain vs seen' where e: "valid_buses Map.empty (before @ r # after) S = (vs, seen')"
    by (cases "valid_buses Map.empty (before @ r # after) S")
  from valid_buses_seen_after [OF e] obtain t where "seen' (vehicle_number r) = Some t" "time r \<le> t"
    by blast
  with h have "\<not> fst (is_record_valid seen' r' S)"
    by (intro is_record_valid_blocked [of _ _ t]) auto
  then show "\<not> fst (is_record_valid (snd (valid_buses Map.empty (before @ r # after) S)) r' S)"
    by (simp add: e)
qed

text \<open>
  An instance: the session started at 100, vehicle 1000 was accepted at 200, and a
  record of the same vehicle at 50 is checked.
\<close>

theorem C1_validity_check_witness:
  "valid_buses Map.empty [bus_at ''1000'' 200 52.0 21.0] 100
     = ([bus_at ''1000'' 200 52.0 21.0], [''1000'' \<mapsto> 200])
   \<and> (fst (is_record_valid [''1000'' \<mapsto> 200] (bus_at ''1000'' 50 52.0 21.0) 100) \<longleftrightarrow>
        \<not> (\<exists>a\<in>set [bus_at ''1000'' 200 52.0 21.0].
              vehicle_number a = vehicle_number (bus_at ''1000'' 50 52.0 21.0)
              \<and> time a \<ge> time (bus_at ''1000'' 50 52.0 21.0))
        \<and> 100 < time (bus_at ''1000'' 50 52.0 21.0))
   \<and> time (bus_at ''1000'' 50 52.0 21.0) \<le> 100
   \<and> \<not> fst (is_record_valid Map.empty (bus_at ''1000'' 50 52.0 21.0) 100)
   \<and> snd (is_record_valid Map.empty (bus_at ''1000'' 50 52.0 21.0) 100)
         (vehicle_number (bus_at ''1000'' 50 52.0 21.0))
       = Some (time (bus_at ''1000'' 50 52.0 21.0))
   \<and> bus_at ''1000'' 50 52.0 21.0
         \<notin> set (fst (valid_buses Map.empty ([] @ bus_at ''1000'' 50 52.0 21.0 # []) 100))
   \<and> \<not> fst (is_record_valid
              (snd (valid_buses Map.empty ([] @ bus_at ''1000'' 50 52.0 21.0 # []) 100))
              (bus_at ''1000'' 40 52.1 21.1) 100)"
proof -
  let ?a = "bus_at ''1000'' 200 52.0 21.0"
  let ?r = "bus_at ''1000'' 50 52.0 21.0"
  let ?r' = "bus_at ''1000'' 40 52.1 21.1"
  note T = C1_validity_check [of "[?a]" 100 "[?a]" "[''1000'' \<mapsto> 200]" ?r Map.empty ?r' "[]" "[]"]
  have h1: "valid_buses Map.empty [?a] 100 = ([?a], [''1000'' \<mapsto> 200])"
    by (simp add: is_record_valid_def)
  have h2: "time ?r \<le> 100" by simp
  have h3: "\<forall>t. Map.empty (vehicle_number ?r) = Some t \<longrightarrow> t < time ?r" by simp
  have h4: "time ?r \<le> 100 \<and> vehicle_number ?r' = vehicle_number ?r \<and> time ?r' \<le> time ?r"
    by simp
  from T h1 h2 h3 h4 show ?thesis by blast
qed

section \<open>The recording loop\<close>

lemma is_record_valid_increasing:
  assumes "increasing_inv v acc seen" "is_record_valid seen r S = (ok, seen')"
  shows "increasing_inv v (if ok then acc @ [r] else acc) seen'"
  using assms unfolding increasing_inv_def is_record_valid_def Let_def
  by (auto simp: sorted_wrt_append split: if_splits option.splits) (fastforce+)?

lemma valid_buses_increasing:
  "increasing_inv v acc seen \<Longrightarrow> valid_buses seen xs S = (vs, seen') \<Longrightarrow>
     increasing_inv v (acc @ vs) seen'"
proof (induction xs arbitrary: acc seen vs seen')
  case Nil
  then show ?case by simp
next
  case (Cons r xs)
  obtain ok seen1 where v: "is_record_valid seen r S = (ok, seen1)"
    by (cases "is_record_valid seen r S")
  obtain rest seen2 where w: "valid_buses seen1 xs S = (rest, seen2)"
    by (cases "valid_buses seen1 xs S")
  from Cons.prems(2) v w have vs: "vs = (if ok then r # rest else rest)" and s: "seen' = seen2"
    by auto
  from is_record_valid_increasing [OF Cons.prems(1) v]
  have "increasing_inv v (if ok then acc @ [r] else acc) seen1" .
  from Cons.IH [OF this w] show ?case
    by (cases ok) (simp_all add: vs s)
qed

lemma record_buses_while_increasing:
  "increasing_inv v bus_recs seen \<Longrightarrow>
   record_buses_while session S E clock network logs bus_recs seen stats
     = Some (Inr (out, stats'), logs') \<Longrightarrow>
   sorted_wrt (<) (map time (filter (\<lambda>r. vehicle_number r = v) out))"
proof (induction clock arbitrary: network logs bus_recs seen stats)
  case Nil
  then show ?case by simp
next
  case (Cons now clock)
  show ?case
  proof (cases "now < E")
    case False
    with Cons.prems show ?thesis by (simp add: increasing_inv_def)
  next
    case True
    from Cons.prems(2) True obtain cur cur_stats network1 logs1 where
      d: "download_current_buses session network (logs @ [RequestingBusData])
            = Some (Inr (cur, cur_stats), network1, logs1)"
      by (auto split: option.splits prod.splits sum.splits)
    obtain valid seen1 where vb: "valid_buses seen cur S = (valid, seen1)"
      by (cases "valid_buses seen cur S")
    from Cons.prems(2) True d vb have
      "record_buses_while session S E clock network1 (logs1 @ [NewRecords (length valid)])
         (bus_recs @ valid) seen1 (add_requests_and_records_info stats cur_stats)
       = Some (Inr (out, stats'), logs')"
      by simp
    from Cons.IH [OF valid_buses_increasing [OF Cons.prems(1) vb] this] show ?thesis .
  qed
qed

text \<open>
  Claim C2. For every session start and every stream of fetched records, and for every
  vehicle, the records of that vehicle that the validity check accepts, taken in the
  order of acceptance, have strictly increasing times: no two share a time and none is
  out of order. In particular this holds of the accepted records that the recording loop
  returns.
\<close>

theorem C2_accepted_timestamps_strictly_increasing:
  "sorted_wrt (<)
     (map time (filter (\<lambda>r. vehicle_number r = v)
        (fst (valid_buses Map.empty fetched time_of_start))))
   \<and> (record_buses_loop session time_of_start clock network logs
         = Some (Inr (bus_recs, stats), logs') \<longrightarrow>
       sorted_wrt (<) (map time (filter (\<lambda>r. vehicle_number r = v) bus_recs)))"
proof (intro conjI impI)
  obtain vs seen' where e: "valid_buses Map.empty fetched time_of_start = (vs, seen')"
    by (cases "valid_buses Map.empty fetched time_of_start")
  have "increasing_inv v [] Map.empty"
    by (simp add: increasing_inv_def)
  from valid_buses_increasing [OF this e] have "increasing_inv v vs seen'"
    by simp
  then show "sorted_wrt (<)
     (map time (filter (\<lambda>r. vehicle_number r = v)
        (fst (valid_buses Map.empty fetched time_of_start))))"
    by (simp add: e increasing_inv_def)
next
  assume "record_buses_loop session time_of_start clock network logs
            = Some (Inr (bus_recs, stats), logs')"
  then show "sorted_wrt (<) (map time (filter (\<lambda>r. vehicle_number r = v) bus_recs))"
    unfolding record_buses_loop_def
    by (rule record_buses_while_increasing [of v "[]" Map.empty, rotated])
       (simp add: increasing_inv_def)
qed

text \<open>
  The sample session: three clock readings, the last at the deadline; the first snapshot
  is accepted, the error message is logged and the request repeated, and of the two
  snapshots that follow the first is a duplicate and the second is accepted.
\<close>

lemma sample_run:
  "record_buses_loop sample_session 0 [10, 500000, 1000000] sample_network []
   = Some (Inr ([bus_at ''1000'' 60000000 52.0 21.0, bus_at ''1000'' 70000000 52.001 21.0],
                \<lparr> n_requests = 3, n_successful_requests = 2, n_records = 0,
                  processing_start_time = 0, processing_end_time = 1 \<rparr>),
           [RequestingBusData, NewRecords 1, RequestingBusData,
            ApiErrorWarning (JStr ''error text''), NewRecords 1])"
  by (simp add: record_buses_loop_def sample_session_def sample_network_def download_current_buses_def
        download_valid_json_def is_response_json_valid_def log_api_error_def
        parse_bus_records_def entry_table_def snapshot_entry_def is_record_valid_def
        new_statistics_def add_requests_and_records_info_def)

theorem C2_accepted_timestamps_strictly_increasing_witness:
  "record_buses_loop sample_session 0 [10, 500000, 1000000] sample_network []
   = Some (Inr ([bus_at ''1000'' 60000000 52.0 21.0, bus_at ''1000'' 70000000 52.001 21.0],
                \<lparr> n_requests = 3, n_successful_requests = 2, n_records = 0,
                  processing_start_time = 0, processing_end_time = 1 \<rparr>),
           [RequestingBusData, NewRecords 1, RequestingBusData,
            ApiErrorWarning (JStr ''error text''), NewRecords 1])
   \<and> sorted_wrt (<)
        (map time (filter (\<lambda>r. vehicle_number r = ''1000'')
           [bus_at ''1000'' 60000000 52.0 21.0, bus_at ''1000'' 70000000 52.001 21.0]))"
  using sample_run
    C2_accepted_timestamps_strictly_increasing [where v = "''1000''" and session = sample_session]
  by blast

text \<open>
  The accepted records of the loop are those that the validity check accepts on the
  concatenation of all batches fetched during the session.
\<close>

lemma record_buses_while_stream:
  "valid_buses Map.empty stream S = (bus_recs, seen) \<Longrightarrow>
   record_buses_while session S E clock network logs bus_recs seen stats
     = Some (Inr (out, stats'), logs') \<Longrightarrow>
   \<exists>fetched. fst (valid_buses Map.empty (stream @ fetched) S) = out"
proof (induction clock arbitrary: network logs bus_recs seen stats stream)
  case Nil
  then show ?case by simp
next
  case (Cons now clock)
  show ?case
  proof (cases "now < E")
    case False
    with Cons.prems have "fst (valid_buses Map.empty (stream @ []) S) = out" by simp
    then show ?thesis by blast
  next
    case True
    from Cons.prems(2) True obtain cur cur_stats network1 logs1 where
      d: "download_current_buses session network (logs @ [RequestingBusData])
            = Some (Inr (cur, cur_stats), network1, logs1)"
      by (auto split: option.splits prod.splits sum.splits)
    obtain valid seen1 where vb: "valid_buses seen cur S = (valid, seen1)"
      by (cases "valid_buses seen cur S")
    from Cons.prems(2) True d vb have run:
      "record_buses_while session S E clock network1 (logs1 @ [NewRecords (length valid)])
         (bus_recs @ valid) seen1 (add_requests_and_records_info stats cur_stats)
       = Some (Inr (out, stats'), logs')"
      by simp
    have "valid_buses Map.empty (stream @ cur) S = (bus_recs @ valid, seen1)"
      by (simp add: valid_buses_append Cons.prems(1) vb)
    from Cons.IH [OF this run] obtain fetched where
      "fst (valid_buses Map.empty ((stream @ cur) @ fetched) S) = out" by blast
    then have "fst (valid_buses Map.empty (stream @ (cur @ fetched)) S) = out" by simp
    then show ?thesis by blast
  qed
qed

lemma record_buses_loop_stream:
  assumes "record_buses_loop session time_of_start clock network logs
             = Some (Inr (bus_recs, stats), logs')"
  shows "\<exists>fetched. fst (valid_buses Map.empty fetched time_of_start) = bus_recs"
  using record_buses_while_stream [of "[]" time_of_start "[]" Map.empty] assms
  unfolding record_buses_loop_def by fastforce

text \<open>
  The loop returns when the clock reaches the deadline and, until then, every
  download outcome is well behaved.
\<close>

lemma download_current_buses_well_behaved:
  assumes "well_behaved session x"
  shows "\<exists>bus_recs stats logs'.
           download_current_buses session (x # network) logs
             = Some (Inr (bus_recs, stats), network, logs')"
proof -
  from assms obtain r where x: "x = Inr r" and v: "is_response_json_valid r"
    and p: "\<forall>logs. \<exists>bus_recs logs'.
              parse_bus_records (get_bus_record_from_json session) r logs = (Inr bus_recs, logs')"
    by (auto simp: well_behaved_def split: sum.splits)
  from p obtain bus_recs logs' where
    "parse_bus_records (get_bus_record_from_json session) r logs = (Inr bus_recs, logs')"
    by blast
  with v show ?thesis
    by (simp add: download_current_buses_def download_valid_json_def x)
qed

lemma record_buses_while_returns:
  "\<forall>x\<in>set network. well_behaved session x \<Longrightarrow>
   length (takeWhile (\<lambda>now. now < E) clock) \<le> length network \<Longrightarrow>
   \<exists>now\<in>set clock. E \<le> now \<Longrightarrow>
   \<exists>out stats' logs'.
     record_buses_while session S E clock network logs bus_recs seen stats
       = Some (Inr (out, stats'), logs')"
proof (induction clock arbitrary: network logs bus_recs seen stats)
  case Nil
  then show ?case by simp
next
  case (Cons now clock)
  show ?case
  proof (cases "now < E")
    case False
    then show ?thesis by simp
  next
    case True
    with Cons.prems(2) obtain x rest where n: "network = x # rest"
      by (cases network) auto
    with Cons.prems(1) have wb: "well_behaved session x" and wr: "\<forall>x\<in>set rest. well_behaved session x"
      by auto
    from download_current_buses_well_behaved [OF wb] obtain cur cur_stats logs1 where
      d: "download_current_buses session (x # rest) (logs @ [RequestingBusData])
            = Some (Inr (cur, cur_stats), rest, logs1)"
      by blast
    obtain valid seen1 where vb: "valid_buses seen cur S = (valid, seen1)"
      by (cases "valid_buses seen cur S")
    have l: "length (takeWhile (\<lambda>now. now < E) clock) \<le> length rest"
      using Cons.prems(2) True n by simp
    have e: "\<exists>now\<in>set clock. E \<le> now"
      using Cons.prems(3) True by auto
    from Cons.IH [OF wr l e] obtain out stats' logs' where
      "record_buses_while session S E clock rest (logs1 @ [NewRecords (length valid)])
         (bus_recs @ valid) seen1 (add_requests_and_records_info stats cur_stats)
       = Some (Inr (out, stats'), logs')"
      by blast
    with True d vb n show ?thesis by simp
  qed
qed

section \<open>The fetch layer\<close>

text \<open>
  Every attempt adds one to the request count: the count returned with a valid response
  is the number of download outcomes consumed. A response whose \<^verbatim>\<open>result\<close> is
  present but not a list is logged and the request repeated. A batch is built with a
  successful request count of one.
\<close>

lemma download_valid_json_loop_counts:
  "download_valid_json_loop network n logs = Some (Inr (response, m), network', logs') \<Longrightarrow>
     m = n + int (length network) - int (length network') \<and> is_response_json_valid response"
proof (induction network arbitrary: n logs)
  case Nil
  then show ?case by simp
next
  case (Cons x network)
  show ?case
  proof (cases x)
    case (Inl e)
    with Cons.prems show ?thesis by simp
  next
    case (Inr r)
    show ?thesis
    proof (cases "is_response_json_valid r")
      case True
      with Cons.prems Inr show ?thesis by simp
    next
      case False
      with Cons.prems Inr obtain lg where
        "download_valid_json_loop network (n + 1) lg = Some (Inr (response, m), network', logs')"
        by (auto split: sum.splits)
      from Cons.IH [OF this] show ?thesis by simp
    qed
  qed
qed

lemma download_valid_json_loop_retries:
  assumes "\<forall>r\<in>set bad. map_of r ''result'' \<noteq> None \<and> \<not> is_response_json_valid r"
    and "is_response_json_valid good"
  shows "download_valid_json_loop (map Inr bad @ Inr good # rest) n logs
           = Some (Inr (good, n + int (length bad) + 1), rest,
                   logs @ map (\<lambda>r. ApiErrorWarning (the (map_of r ''result''))) bad)"
  using assms
  by (induction bad arbitrary: n logs) (auto simp: log_api_error_def)

lemma download_current_buses_counts:
  assumes "download_current_buses session network logs = Some (Inr (bus_recs, stats), network', logs')"
  shows "n_successful_requests stats = 1"
    and "n_requests stats = int (length network) - int (length network')"
  using assms download_valid_json_loop_counts [of network 0 logs]
  unfolding download_current_buses_def download_valid_json_def
  by (auto simp: new_statistics_def Let_def split: option.splits sum.splits prod.splits)

text \<open>
  Every request consumes a download outcome, so a batch carries a request count of at
  least one. When the recording loop returns, its successful request count has grown by
  one for each iteration, and its request count by at least as much.
\<close>

lemma download_valid_json_loop_consumes:
  "download_valid_json_loop network n logs = Some (x, network', logs') \<Longrightarrow>
     length network' < length network"
proof (induction network arbitrary: n logs)
  case Nil
  then show ?case by simp
next
  case (Cons y network)
  show ?case
  proof (cases y)
    case (Inl e)
    with Cons.prems show ?thesis by auto
  next
    case (Inr r)
    show ?thesis
    proof (cases "is_response_json_valid r")
      case True
      with Cons.prems Inr show ?thesis by auto
    next
      case False
      show ?thesis
      proof (cases "log_api_error r logs")
        case (Inl e)
        with Cons.prems Inr False show ?thesis by auto
      next
        case (Inr lg)
        with Cons.prems \<open>y = Inr r\<close> False have
          "download_valid_json_loop network (n + 1) lg = Some (x, network', logs')"
          by simp
        from Cons.IH [OF this] show ?thesis by simp
      qed
    qed
  qed
qed

lemma download_current_buses_at_least_one:
  assumes "download_current_buses session network logs = Some (Inr (bus_recs, stats), network', logs')"
  shows "1 \<le> n_requests stats"
proof -
  from assms obtain r m lg where
    d: "download_valid_json_loop network 0 logs = Some (Inr (r, m), network', lg)"
    unfolding download_current_buses_def download_valid_json_def
    by (auto split: option.splits sum.splits prod.splits)
  from download_valid_json_loop_consumes [OF d] have "length network' < length network" .
  with download_current_buses_counts(2) [OF assms] show ?thesis by simp
qed

lemma record_buses_while_counts:
  "record_buses_while session S E clock network logs bus_recs seen stats
     = Some (Inr (out, stats'), logs') \<Longrightarrow>
   n_successful_requests stats'
     = n_successful_requests stats + int (length (takeWhile (\<lambda>now. now < E) clock))
   \<and> n_requests stats' - n_requests stats
       \<ge> n_successful_requests stats' - n_successful_requests stats"
proof (induction clock arbitrary: network logs bus_recs seen stats)
  case Nil
  then show ?case by simp
next
  case (Cons now clock)
  show ?case
  proof (cases "now < E")
    case False
    with Cons.prems show ?thesis by simp
  next
    case True
    from Cons.prems True obtain cur cur_stats network1 logs1 where
      d: "download_current_buses session network (logs @ [RequestingBusData])
            = Some (Inr (cur, cur_stats), network1, logs1)"
      by (auto split: option.splits prod.splits sum.splits)
    obtain valid seen1 where vb: "valid_buses seen cur S = (valid, seen1)"
      by (cases "valid_buses seen cur S")
    from Cons.prems True d vb have run:
      "record_buses_while session S E clock network1 (logs1 @ [NewRecords (length valid)])
         (bus_recs @ valid) seen1 (add_requests_and_records_info stats cur_stats)
       = Some (Inr (out, stats'), logs')"
      by simp
    from Cons.IH [OF run] download_current_buses_counts(1) [OF d]
      download_current_buses_at_least_one [OF d] True
    show ?thesis
      by (simp add: add_requests_and_records_info_def)
  qed
qed

text \<open>
  Claim C3, the case of a response without the key \<^verbatim>\<open>result\<close>. Such a response is
  not of valid shape; logging it raises \<^verbatim>\<open>KeyError\<close>, which leaves
  \<^verbatim>\<open>_download_valid_json\<close> with the valid response behind it never requested, and
  ends the recording loop after its first request.
\<close>

theorem C3_missing_result_key_raises:
  "is_response_json_valid [(''error'', JStr ''unauthorized'')] = False
   \<and> download_valid_json
        [Inr [(''error'', JStr ''unauthorized'')], Inr [(''result'', JList [])]] []
      = Some (Inl KeyError, [Inr [(''result'', JList [])]], [])
   \<and> record_buses_loop sample_session 0 [10, 1000000]
        [Inr [(''error'', JStr ''unauthorized'')], Inr [(''result'', JList [])]] []
      = Some (Inl KeyError, [RequestingBusData])"
  by (simp add: record_buses_loop_def sample_session_def download_current_buses_def
        download_valid_json_def is_response_json_valid_def log_api_error_def)

section \<open>Speeds\<close>

lemma get_speed_cases:
  "get_speed gc r1 r2 =
     (if \<not> valid_latitude (pos r1) \<or> \<not> valid_latitude (pos r2) then Inl ValueError
      else if time r1 = time r2 then Inl ZeroDivisionError
      else Inr (gc (pos r1) (pos r2) / total_seconds (time r2 - time r1)))"
  by (simp add: get_speed_def py_truediv_def total_seconds_def distance_to_def)

lemma get_speeds_loop_returns:
  "\<forall>i\<in>set idx. \<not> raises_at bus_recs i \<Longrightarrow>
     get_speeds_loop gc bus_recs idx speeds = Inr (speeds @ map (speed_at gc bus_recs) idx)"
  by (induction idx arbitrary: speeds)
     (auto simp: get_speed_cases speed_at_def raises_at_def Let_def)

lemma get_speeds_loop_raises:
  "i \<in> set idx \<Longrightarrow> raises_at bus_recs i \<Longrightarrow>
     get_speeds_loop gc bus_recs idx speeds = Inl ValueError
     \<or> get_speeds_loop gc bus_recs idx speeds = Inl ZeroDivisionError"
  by (induction idx arbitrary: speeds)
     (auto simp: get_speed_cases raises_at_def Let_def)

lemma get_speeds_loop_zero_delta:
  "i \<in> set idx \<Longrightarrow> zero_delta_at bus_recs i \<Longrightarrow>
   \<forall>j\<in>set idx. valid_latitude (pos (bus_recs ! (j - 1))) \<and> valid_latitude (pos (bus_recs ! j)) \<Longrightarrow>
     get_speeds_loop gc bus_recs idx speeds = Inl ZeroDivisionError"
  by (induction idx arbitrary: speeds)
     (auto simp: get_speed_cases zero_delta_at_def Let_def)

lemma get_speeds_loop_Inr:
  assumes "get_speeds_loop gc bus_recs idx speeds = Inr out"
  shows "out = speeds @ map (speed_at gc bus_recs) idx \<and> (\<forall>i\<in>set idx. \<not> raises_at bus_recs i)"
proof -
  have no: "\<forall>i\<in>set idx. \<not> raises_at bus_recs i"
  proof (rule ccontr)
    assume "\<not> (\<forall>i\<in>set idx. \<not> raises_at bus_recs i)"
    then obtain i where "i \<in> set idx" "raises_at bus_recs i" by blast
    from get_speeds_loop_raises [OF this, of gc speeds] assms show False by auto
  qed
  from get_speeds_loop_returns [OF no, of gc speeds] assms no show ?thesis by simp
qed

lemma get_speeds_returns:
  assumes "\<forall>i. 0 < i \<and> i < length bus_recs \<longrightarrow> \<not> raises_at bus_recs i"
  shows "get_speeds gc bus_recs = Inr (None # map (speed_at gc bus_recs) [1..<length bus_recs])"
proof -
  have "\<forall>i\<in>set [1..<length bus_recs]. \<not> raises_at bus_recs i"
    using assms by auto
  then show ?thesis
    unfolding get_speeds_def by (simp add: get_speeds_loop_returns)
qed

lemma get_speeds_Inr:
  assumes "get_speeds gc bus_recs = Inr speeds"
  shows "speeds = None # map (speed_at gc bus_recs) [1..<length bus_recs]"
  using get_speeds_loop_Inr [of gc bus_recs "[1..<length bus_recs]" "[None]" speeds] assms
  unfolding get_speeds_def by simp

lemma get_speeds_raises:
  assumes "0 < i" "i < length bus_recs" "raises_at bus_recs i"
  shows "get_speeds gc bus_recs = Inl ValueError \<or> get_speeds gc bus_recs = Inl ZeroDivisionError"
  unfolding get_speeds_def
  by (rule get_speeds_loop_raises [of i]) (use assms in auto)

lemma get_speeds_zero_delta:
  assumes "0 < i" "i < length bus_recs" "zero_delta_at bus_recs i"
    and "\<forall>r\<in>set bus_recs. valid_latitude (pos r)"
  shows "get_speeds gc bus_recs = Inl ZeroDivisionError"
  unfolding get_speeds_def
proof (rule get_speeds_loop_zero_delta [of i])
  show "i \<in> set [1..<length bus_recs]" using assms by auto
  show "zero_delta_at bus_recs i" by fact
  show "\<forall>j\<in>set [1..<length bus_recs].
          valid_latitude (pos (bus_recs ! (j - 1))) \<and> valid_latitude (pos (bus_recs ! j))"
    using assms(4) by (auto simp: less_imp_diff_less)
qed

text \<open>
  A latitude of 91 degrees: the distance computation raises before any speed is
  computed, whatever the times.
\<close>

lemma get_speeds_latitude_out_of_range:
  "get_speeds taxicab_metres [bus_at ''1000'' 0 91.0 21.0, bus_at ''1000'' 1000000 52.0 21.0]
   = Inl ValueError"
  by (simp add: get_speeds_def get_speed_cases valid_latitude_def)

text \<open>
  Two consecutive records of one vehicle with the same time: the list is contiguous and
  ordered in time, and no list of speeds is returned.
\<close>

theorem C4_equal_timestamps_counterexample:
  "get_speeds taxicab_metres
     [bus_at ''1000'' 0 52.248455 21.044827, bus_at ''1000'' 0 52.249 21.046]
   = Inl ZeroDivisionError"
  by (simp add: get_speeds_def get_speed_cases valid_latitude_def)

text \<open>
  Claim C4, amended. For every list of records in which any two consecutive records of
  the same vehicle have different times and latitudes within \<open>[-90, 90]\<close> (so for every
  list of records with latitudes in range whose same-vehicle records are contiguous and
  strictly increasing in time), \<^verbatim>\<open>get_speeds\<close> returns a list of speeds, as long as
  the input or of length one for the empty input, whose element 0 is undefined and
  whose element \<open>i > 0\<close> is, when records \<open>i - 1\<close> and \<open>i\<close> have the same vehicle number,
  the distance between their positions divided by the difference of their times in
  seconds, and is undefined otherwise.
\<close>

theorem C4_speeds_of_consecutive_records:
  assumes "\<forall>i. 0 < i \<and> i < length bus_recs
               \<and> vehicle_number (bus_recs ! (i - 1)) = vehicle_number (bus_recs ! i)
             \<longrightarrow> time (bus_recs ! (i - 1)) \<noteq> time (bus_recs ! i)
                 \<and> valid_latitude (pos (bus_recs ! (i - 1)))
                 \<and> valid_latitude (pos (bus_recs ! i))"
  shows "\<exists>speeds. get_speeds great_circle bus_recs = Inr speeds
           \<and> length speeds = max 1 (length bus_recs)
           \<and> speeds ! 0 = None
           \<and> (\<forall>i. 0 < i \<and> i < length bus_recs \<longrightarrow>
                 speeds ! i =
                   (if vehicle_number (bus_recs ! (i - 1)) = vehicle_number (bus_recs ! i)
                    then Some (great_circle (pos (bus_recs ! (i - 1))) (pos (bus_recs ! i))
                                 / total_seconds (time (bus_recs ! i) - time (bus_recs ! (i - 1))))
                    else None))"
proof -
  let ?out = "None # map (speed_at great_circle bus_recs) [1..<length bus_recs]"
  have "\<forall>i. 0 < i \<and> i < length bus_recs \<longrightarrow> \<not> raises_at bus_recs i"
    using assms by (auto simp: raises_at_def)
  then have ret: "get_speeds great_circle bus_recs = Inr ?out"
    by (rule get_speeds_returns)
  have len: "length ?out = max 1 (length bus_recs)"
    by (cases "length bus_recs") auto
  have nth: "?out ! i = speed_at great_circle bus_recs i" if "0 < i" "i < length bus_recs" for i
  proof -
    from that obtain j where j: "i = Suc j" by (cases i) auto
    with that show ?thesis by simp
  qed
  have z: "?out ! 0 = None" by simp
  show ?thesis
    using ret len z nth unfolding speed_at_def by blast
qed

text \<open>
  An instance: the two positions of the specification ten seconds apart, followed by a
  record of another vehicle.
\<close>

theorem C4_speeds_of_consecutive_records_witness:
  "get_speeds taxicab_metres
     [bus_at ''1000'' 0 52.248455 21.044827, bus_at ''1000'' 10000000 52.249 21.046,
      bus_at ''2000'' 10000000 52.0 21.0]
   = Inr [None, Some 19.103301, None]"
proof -
  let ?rs = "[bus_at ''1000'' 0 52.248455 21.044827, bus_at ''1000'' 10000000 52.249 21.046,
      bus_at ''2000'' 10000000 52.0 21.0]"
  have hyp: "\<forall>i. 0 < i \<and> i < length ?rs
               \<and> vehicle_number (?rs ! (i - 1)) = vehicle_number (?rs ! i)
             \<longrightarrow> time (?rs ! (i - 1)) \<noteq> time (?rs ! i)
                 \<and> valid_latitude (pos (?rs ! (i - 1)))
                 \<and> valid_latitude (pos (?rs ! i))"
    by (simp add: nth_Cons' less_Suc_eq valid_latitude_def)
  from C4_speeds_of_consecutive_records [OF hyp, of taxicab_metres]
  obtain speeds where s: "get_speeds taxicab_metres ?rs = Inr speeds"
    and l: "length speeds = max 1 (length ?rs)"
    and z: "speeds ! 0 = None"
    and n: "\<forall>i. 0 < i \<and> i < length ?rs \<longrightarrow>
                 speeds ! i =
                   (if vehicle_number (?rs ! (i - 1)) = vehicle_number (?rs ! i)
                    then Some (taxicab_metres (pos (?rs ! (i - 1))) (pos (?rs ! i))
                                 / total_seconds (time (?rs ! i) - time (?rs ! (i - 1))))
                    else None)"
    by blast
  from l obtain a b c where abc: "speeds = [a, b, c]"
    by (cases speeds; cases "tl speeds"; cases "tl (tl speeds)") auto
  from n [rule_format, of 1] have "b = Some 19.103301"
    by (simp add: abc taxicab_metres_def total_seconds_def)
  moreover from n [rule_format, of 2] have "c = None"
    by (simp add: abc)
  moreover from z have "a = None" by (simp add: abc)
  ultimately show ?thesis using s abc by simp
qed

text \<open>
  Two records with the same time: the speed computation raises an error and produces
  no value.
\<close>

theorem C8_zero_delta_raises_counterexample:
  "get_speed taxicab_metres
     (bus_at ''1000'' 0 52.248455 21.044827) (bus_at ''1000'' 0 52.249 21.046)
   = Inl ZeroDivisionError"
  by (simp add: get_speed_cases valid_latitude_def)

text \<open>
  Claim C8, amended. For every pair of records with equal times the speed computation
  produces no value: it divides by the zero time difference without a guard, which
  raises \<^verbatim>\<open>ZeroDivisionError\<close>, unless a latitude of the pair lies outside
  \<open>[-90, 90]\<close>, in which case the distance computation has raised \<^verbatim>\<open>ValueError\<close>
  before the division. For every list that holds two consecutive records of the same
  vehicle with equal times, \<^verbatim>\<open>get_speeds\<close> raises one of these two errors and returns
  no list, and the error is \<^verbatim>\<open>ZeroDivisionError\<close> when all latitudes of the list are
  in range.
\<close>

theorem C8_zero_time_delta_raises:
  "(time rec1 = time rec2 \<longrightarrow>
      get_speed great_circle rec1 rec2
        = (if valid_latitude (pos rec1) \<and> valid_latitude (pos rec2)
           then Inl ZeroDivisionError else Inl ValueError))
   \<and> (0 < i \<and> i < length bus_recs
        \<and> vehicle_number (bus_recs ! (i - 1)) = vehicle_number (bus_recs ! i)
        \<and> time (bus_recs ! (i - 1)) = time (bus_recs ! i) \<longrightarrow>
      get_speeds great_circle bus_recs = Inl ZeroDivisionError
      \<or> get_speeds great_circle bus_recs = Inl ValueError)
   \<and> (0 < i \<and> i < length bus_recs
        \<and> vehicle_number (bus_recs ! (i - 1)) = vehicle_number (bus_recs ! i)
        \<and> time (bus_recs ! (i - 1)) = time (bus_recs ! i)
        \<and> (\<forall>r\<in>set bus_recs. valid_latitude (pos r)) \<longrightarrow>
      get_speeds great_circle bus_recs = Inl ZeroDivisionError)"
proof (intro conjI impI)
  assume "time rec1 = time rec2"
  then show "get_speed great_circle rec1 rec2
        = (if valid_latitude (pos rec1) \<and> valid_latitude (pos rec2)
           then Inl ZeroDivisionError else Inl ValueError)"
    by (simp add: get_speed_cases)
next
  assume h: "0 < i \<and> i < length bus_recs
        \<and> vehicle_number (bus_recs ! (i - 1)) = vehicle_number (bus_recs ! i)
        \<and> time (bus_recs ! (i - 1)) = time (bus_recs ! i)"
  then have "raises_at bus_recs i" by (simp add: raises_at_def)
  with h get_speeds_raises [of i bus_recs great_circle]
  show "get_speeds great_circle bus_recs = Inl ZeroDivisionError
      \<or> get_speeds great_circle bus_recs = Inl ValueError"
    by blast
next
  assume h: "0 < i \<and> i < length bus_recs
        \<and> vehicle_number (bus_recs ! (i - 1)) = vehicle_number (bus_recs ! i)
        \<and> time (bus_recs ! (i - 1)) = time (bus_recs ! i)
        \<and> (\<forall>r\<in>set bus_recs. valid_latitude (pos r))"
  then have "zero_delta_at bus_recs i" by (simp add: zero_delta_at_def)
  with h show "get_speeds great_circle bus_recs = Inl ZeroDivisionError"
    by (intro get_speeds_zero_delta [of i]) auto
qed

text \<open>
  An instance: vehicle 1000 reported twice at the fifth second.
\<close>

theorem C8_zero_time_delta_raises_witness:
  "get_speed taxicab_metres (bus_at ''1000'' 5000000 52.0 21.0) (bus_at ''1000'' 5000000 52.001 21.0)
     = Inl ZeroDivisionError
   \<and> get_speeds taxicab_metres
       [bus_at ''1000'' 0 52.0 21.0, bus_at ''1000'' 5000000 52.0 21.0,
        bus_at ''1000'' 5000000 52.001 21.0]
     = Inl ZeroDivisionError"
proof -
  let ?a = "bus_at ''1000'' 0 52.0 21.0"
  let ?b = "bus_at ''1000'' 5000000 52.0 21.0"
  let ?c = "bus_at ''1000'' 5000000 52.001 21.0"
  have h1: "time ?b = time ?c" by simp
  have v: "valid_latitude (pos ?b) \<and> valid_latitude (pos ?c)"
    by (simp add: valid_latitude_def)
  have h2: "0 < (2::nat) \<and> 2 < length [?a, ?b, ?c]
        \<and> vehicle_number ([?a, ?b, ?c] ! (2 - 1)) = vehicle_number ([?a, ?b, ?c] ! 2)
        \<and> time ([?a, ?b, ?c] ! (2 - 1)) = time ([?a, ?b, ?c] ! 2)
        \<and> (\<forall>r\<in>set [?a, ?b, ?c]. valid_latitude (pos r))"
    by (simp add: valid_latitude_def)
  note T = C8_zero_time_delta_raises [of ?b ?c taxicab_metres 2 "[?a, ?b, ?c]"]
  from T h1 v have r1: "get_speed taxicab_metres ?b ?c = Inl ZeroDivisionError"
    by presburger
  from T h2 have r2: "get_speeds taxicab_metres [?a, ?b, ?c] = Inl ZeroDivisionError"
    by blast
  from r1 r2 show ?thesis by blast
qed




text \<open>
  Every list that \<^verbatim>\<open>get_speeds\<close> returns has the length and the first element of
  claim C10, and is returned for an input without a failing pair.
\<close>

lemma get_speeds_Inr_shape:
  assumes "get_speeds gc bus_recs = Inr speeds"
  shows "length speeds = max 1 (length bus_recs)" and "speeds ! 0 = None"
    and "\<forall>i. 0 < i \<and> i < length bus_recs \<longrightarrow> \<not> raises_at bus_recs i"
proof -
  from get_speeds_Inr [OF assms]
  have s: "speeds = None # map (speed_at gc bus_recs) [1..<length bus_recs]" .
  show "length speeds = max 1 (length bus_recs)"
    unfolding s by (cases "length bus_recs") auto
  show "speeds ! 0 = None"
    unfolding s by simp
  from get_speeds_loop_Inr [of gc bus_recs "[1..<length bus_recs]" "[None]" speeds] assms
  show "\<forall>i. 0 < i \<and> i < length bus_recs \<longrightarrow> \<not> raises_at bus_recs i"
    unfolding get_speeds_def by auto
qed

section \<open>Positions of interest\<close>

lemma vicinity_loop_distinct:
  "distinct (map (\<lambda>x. bus_key (fst x)) xs) \<Longrightarrow>
   valid_latitude (pos seed) \<Longrightarrow> \<forall>x\<in>set xs. valid_latitude (pos (fst x)) \<Longrightarrow>
   vicinity_loop gc seed xs V n =
     Inr (V \<union> (\<lambda>x. bus_key (fst x)) ` {x \<in> set xs. bus_key (fst x) \<notin> V \<and> near_seed gc seed x},
          n + int (length (filter (\<lambda>x. bus_key (fst x) \<notin> V \<and> near_seed gc seed x) xs)))"
proof (induction xs arbitrary: V n)
  case Nil
  then show ?case by simp
next
  case (Cons x xs)
  let ?P = "\<lambda>W y. bus_key (fst y) \<notin> W \<and> near_seed gc seed y"
  obtain r s where x: "x = (r, s)" by (cases x)
  from Cons.prems have d: "distinct (map (\<lambda>x. bus_key (fst x)) xs)"
    and nk: "\<forall>y\<in>set xs. bus_key (fst y) \<noteq> bus_key r"
    by (force simp: x)+
  from Cons.prems have vs: "valid_latitude (pos seed)" and vr: "valid_latitude (pos r)"
    and vxs: "\<forall>x\<in>set xs. valid_latitude (pos (fst x))"
    by (auto simp: x)
  have dt: "distance_to gc (pos seed) (pos r) = Inr (gc (pos seed) (pos r))"
    using vs vr by (simp add: distance_to_def)
  show ?case
  proof (cases "?P V x")
    case True
    have eq: "?P (insert (bus_key r) V) y = ?P V y" if "y \<in> set xs" for y
      using nk that by auto
    have f: "filter (?P (insert (bus_key r) V)) xs = filter (?P V) xs"
      by (rule filter_cong) (use eq in auto)
    have s: "{y \<in> set xs. ?P (insert (bus_key r) V) y} = {y \<in> set xs. ?P V y}"
      using eq by blast
    have step: "vicinity_loop gc seed (x # xs) V n
                  = vicinity_loop gc seed xs (insert (bus_key r) V) (n + 1)"
      using True by (simp add: x near_seed_def dt)
    have ih: "vicinity_loop gc seed xs (insert (bus_key r) V) (n + 1)
                = Inr (insert (bus_key r) V \<union> (\<lambda>x. bus_key (fst x)) ` {y \<in> set xs. ?P V y},
                       n + 1 + int (length (filter (?P V) xs)))"
      using Cons.IH [OF d vs vxs, of "insert (bus_key r) V" "n + 1"] unfolding f s .
    have set_eq: "{y \<in> set (x # xs). ?P V y} = insert x {y \<in> set xs. ?P V y}"
      using True by auto
    have len_eq: "filter (?P V) (x # xs) = x # filter (?P V) xs"
      using True by simp
    show ?thesis
      unfolding step ih set_eq len_eq by (simp add: x)
  next
    case False
    have step: "vicinity_loop gc seed (x # xs) V n = vicinity_loop gc seed xs V n"
      using False by (auto simp: x near_seed_def dt)
    have set_eq: "{y \<in> set (x # xs). ?P V y} = {y \<in> set xs. ?P V y}"
      using False by auto
    have len_eq: "filter (?P V) (x # xs) = filter (?P V) xs"
      using False by simp
    show ?thesis
      unfolding step set_eq len_eq by (rule Cons.IH [OF d vs vxs])
  qed
qed

lemma positions_loop_distinct:
  assumes dist: "distinct (map (\<lambda>x. bus_key (fst x)) all)"
    and valid: "\<forall>x\<in>set all. valid_latitude (pos (fst x))"
  shows "all = done @ todo \<Longrightarrow> (\<lambda>x. bus_key (fst x)) ` set done \<subseteq> V \<Longrightarrow>
         positions_loop gc all todo V out
           = Inr (out @ seed_clusters_spec gc (filter (\<lambda>x. bus_key (fst x) \<notin> V) todo))"
proof (induction todo arbitrary: "done" V out)
  case Nil
  then show ?case by simp
next
  case (Cons x todo)
  let ?k = "\<lambda>x. bus_key (fst x)"
  obtain r s where x: "x = (r, s)" by (cases x)
  have all': "all = (done @ [x]) @ todo" using Cons.prems(1) by simp
  from dist have inj: "inj_on ?k (set all)" by (simp add: distinct_map)
  have x_all: "x \<in> set all" and todo_all: "set todo \<subseteq> set all" and done_all: "set done \<subseteq> set all"
    using Cons.prems(1) by auto
  have vr: "valid_latitude (pos r)" using valid x_all by (auto simp: x)
  have x_todo: "\<forall>y\<in>set todo. ?k y \<noteq> ?k x"
    using dist Cons.prems(1) by (auto simp: image_iff)
  show ?case
  proof (cases "bus_key r \<in> V")
    case True
    have "positions_loop gc all (x # todo) V out = positions_loop gc all todo V out"
      using True by (simp add: x)
    also have "\<dots> = Inr (out @ seed_clusters_spec gc (filter (\<lambda>x. ?k x \<notin> V) todo))"
      by (rule Cons.IH [OF all']) (use True Cons.prems(2) in \<open>auto simp: x\<close>)
    also have "filter (\<lambda>x. ?k x \<notin> V) todo = filter (\<lambda>x. ?k x \<notin> V) (x # todo)"
      using True by (simp add: x)
    finally show ?thesis .
  next
    case False
    let ?V1 = "insert (bus_key r) V"
    let ?Q = "\<lambda>y. ?k y \<notin> ?V1 \<and> near_seed gc r y"
    let ?N = "\<lambda>y. ?k y \<notin> V \<and> near_seed gc r y"
    let ?unv = "filter (\<lambda>x. ?k x \<notin> V) todo"
    have Q_done: "\<forall>y\<in>set done. \<not> ?Q y" using Cons.prems(2) by auto
    have Q_x: "\<not> ?Q x" by (simp add: x)
    have Q_todo: "\<forall>y\<in>set todo. ?Q y = ?N y" using x_todo by (auto simp: x)
    have fQ: "filter ?Q all = filter ?N todo"
    proof -
      have "filter ?Q all = filter ?Q done @ filter ?Q [x] @ filter ?Q todo"
        unfolding Cons.prems(1) by simp
      also have "filter ?Q done = []" using Q_done by (simp add: filter_empty_conv)
      also have "filter ?Q [x] = []" using Q_x by simp
      also have "filter ?Q todo = filter ?N todo"
        by (rule filter_cong) (use Q_todo in auto)
      finally show ?thesis by simp
    qed
    have sQ: "{y \<in> set all. ?Q y} = {y \<in> set todo. ?N y}"
    proof -
      have "{y \<in> set all. ?Q y} = set (filter ?Q all)" by simp
      also have "\<dots> = set (filter ?N todo)" by (simp only: fQ)
      finally show ?thesis by simp
    qed
    let ?V2 = "?V1 \<union> ?k ` {y \<in> set todo. ?N y}"
    let ?n = "1 + int (length (filter ?N todo))"
    have vic: "vicinity_loop gc r all ?V1 1 = Inr (?V2, ?n)"
      using vicinity_loop_distinct [OF dist vr valid, of gc ?V1 1] unfolding fQ sQ .
    have step: "positions_loop gc all (x # todo) V out
                  = positions_loop gc all todo ?V2 (out @ [(pos r, ?n)])"
      using False vic by (simp add: x)
    have sub: "?k ` set (done @ [x]) \<subseteq> ?V2"
      using Cons.prems(2) by (auto simp: x)
    have ih: "positions_loop gc all todo ?V2 (out @ [(pos r, ?n)])
                = Inr ((out @ [(pos r, ?n)])
                        @ seed_clusters_spec gc (filter (\<lambda>x. ?k x \<notin> ?V2) todo))"
      by (rule Cons.IH [OF all' sub])
    have mem: "?k y \<in> ?k ` {z \<in> set todo. ?N z} \<longleftrightarrow> ?N y" if "y \<in> set todo" for y
    proof
      assume "?k y \<in> ?k ` {z \<in> set todo. ?N z}"
      then obtain z where z: "z \<in> set todo" "?N z" "?k y = ?k z" by auto
      with inj that todo_all have "y = z" by (auto dest: inj_onD)
      with z show "?N y" by simp
    next
      assume "?N y"
      with that show "?k y \<in> ?k ` {z \<in> set todo. ?N z}" by blast
    qed
    have f2: "filter (\<lambda>x. ?k x \<notin> ?V2) todo = filter (\<lambda>x. \<not> near_seed gc r x) ?unv"
    proof -
      have "filter (\<lambda>x. ?k x \<notin> ?V2) todo = filter (\<lambda>x. ?k x \<notin> V \<and> \<not> near_seed gc r x) todo"
      proof (rule filter_cong [OF refl])
        fix y assume y: "y \<in> set todo"
        from x_todo y have "?k y \<noteq> bus_key r" by (auto simp: x)
        with mem [OF y] show "(?k y \<notin> ?V2) = (?k y \<notin> V \<and> \<not> near_seed gc r y)"
          by auto
      qed
      also have "\<dots> = filter (\<lambda>x. \<not> near_seed gc r x) ?unv"
        by (simp add: conj_commute)
      finally show ?thesis .
    qed
    have n_eq: "filter ?N todo = filter (near_seed gc r) ?unv"
      by (simp add: conj_commute)
    have rhs: "filter (\<lambda>x. ?k x \<notin> V) (x # todo) = (r, s) # ?unv"
      using False by (simp add: x)
    have "positions_loop gc all (x # todo) V out
            = Inr ((out @ [(pos r, ?n)])
                    @ seed_clusters_spec gc (filter (\<lambda>x. ?k x \<notin> ?V2) todo))"
      using step ih by (rule trans)
    also have "\<dots> = Inr (out @ seed_clusters_spec gc ((r, s) # ?unv))"
      by (simp only: f2 n_eq seed_clusters_spec.simps append_assoc append_Cons append_Nil)
    finally show ?thesis
      by (simp only: rhs)
  qed
qed

text \<open>
  Three entries for the same vehicle and time, at positions within 22 metres of each
  other: one cluster with a member count of one.
\<close>

theorem C5_same_identity_counterexample:
  "get_positions_of_interest taxicab_metres
     [(bus_at ''1000'' 0 52.0 21.0, Some 15), (bus_at ''1000'' 0 52.0001 21.0, Some 16),
      (bus_at ''1000'' 0 52.0002 21.0, Some 17)]
   = Inr [(\<lparr> lat = 52.0, lon = 21.0 \<rparr>, 1)]"
  by (simp add: get_positions_of_interest_def bus_key_def)

text \<open>
  The bound of 100 metres is strict, and a latitude out of range ends the clustering:
  two vehicles exactly 100 metres apart are two clusters of one member each, and a
  vehicle reported at a latitude of 91 degrees makes the distance computation raise.
\<close>

lemma exactly_100_metres_apart:
  "get_positions_of_interest taxicab_metres
     [(bus_at ''1000'' 0 52.0 21.0, Some 15),
      (bus_at ''2000'' 0 (52.0 + 100 / 111195) 21.0, Some 16)]
   = Inr [(\<lparr> lat = 52.0, lon = 21.0 \<rparr>, 1), (\<lparr> lat = 52.0 + 100 / 111195, lon = 21.0 \<rparr>, 1)]"
  by (simp add: get_positions_of_interest_def bus_key_def distance_to_def valid_latitude_def
        taxicab_metres_def)

lemma positions_latitude_out_of_range:
  "get_positions_of_interest taxicab_metres
     [(bus_at ''1000'' 0 52.0 21.0, Some 15), (bus_at ''2000'' 0 91.0 21.0, Some 16)]
   = Inl ValueError"
  by (simp add: get_positions_of_interest_def bus_key_def distance_to_def valid_latitude_def)

text \<open>
  Claim C5, amended. For every input list of (record, speed) pairs whose records are
  pairwise distinct as pairs of vehicle number and time and have latitudes within
  \<open>[-90, 90]\<close>, the result is the clustering of the specification: records are taken in
  input order, each record not yet visited is a seed, every other unvisited record less
  than 100 metres from the seed joins its cluster in a single pass, and each cluster is
  reported as the seed's position and its member count. In particular three such
  records at positions mutually less than 100 metres apart yield exactly one cluster
  with member count 3; there is no transitive merging: if the second record is close to
  the first and the third is not, the third is a cluster of its own whatever its
  distance to the second; and a record at exactly 100 metres from the seed is not a
  member.
\<close>

theorem C5_seed_clustering:
  "(distinct (map (\<lambda>x. bus_key (fst x)) bus_speeds)
      \<and> (\<forall>x\<in>set bus_speeds. valid_latitude (pos (fst x))) \<longrightarrow>
      get_positions_of_interest great_circle bus_speeds
        = Inr (seed_clusters_spec great_circle bus_speeds))
   \<and> (distinct [bus_key a, bus_key b, bus_key c]
        \<and> valid_latitude (pos a) \<and> valid_latitude (pos b) \<and> valid_latitude (pos c)
        \<and> great_circle (pos a) (pos b) < 100 \<and> great_circle (pos a) (pos c) < 100
        \<and> great_circle (pos b) (pos c) < 100 \<longrightarrow>
      get_positions_of_interest great_circle [(a, sa), (b, sb), (c, sc)] = Inr [(pos a, 3)])
   \<and> (distinct [bus_key a, bus_key b, bus_key c]
        \<and> valid_latitude (pos a) \<and> valid_latitude (pos b) \<and> valid_latitude (pos c)
        \<and> great_circle (pos a) (pos b) < 100 \<and> \<not> great_circle (pos a) (pos c) < 100 \<longrightarrow>
      get_positions_of_interest great_circle [(a, sa), (b, sb), (c, sc)]
        = Inr [(pos a, 2), (pos c, 1)])
   \<and> (bus_key a \<noteq> bus_key b
        \<and> valid_latitude (pos a) \<and> valid_latitude (pos b)
        \<and> great_circle (pos a) (pos b) = 100 \<longrightarrow>
      get_positions_of_interest great_circle [(a, sa), (b, sb)]
        = Inr [(pos a, 1), (pos b, 1)])"
proof -
  have gen: "get_positions_of_interest great_circle xs = Inr (seed_clusters_spec great_circle xs)"
    if "distinct (map (\<lambda>x. bus_key (fst x)) xs)" "\<forall>x\<in>set xs. valid_latitude (pos (fst x))"
    for xs
    unfolding get_positions_of_interest_def
    using positions_loop_distinct [OF that, of "[]" xs "{}" great_circle "[]"] by simp
  show ?thesis
  proof (intro conjI impI)
    assume "distinct (map (\<lambda>x. bus_key (fst x)) bus_speeds)
      \<and> (\<forall>x\<in>set bus_speeds. valid_latitude (pos (fst x)))"
    then show "get_positions_of_interest great_circle bus_speeds
                 = Inr (seed_clusters_spec great_circle bus_speeds)"
      by (intro gen) auto
  next
    assume h: "distinct [bus_key a, bus_key b, bus_key c]
        \<and> valid_latitude (pos a) \<and> valid_latitude (pos b) \<and> valid_latitude (pos c)
        \<and> great_circle (pos a) (pos b) < 100 \<and> great_circle (pos a) (pos c) < 100
        \<and> great_circle (pos b) (pos c) < 100"
    then have "distinct (map (\<lambda>x. bus_key (fst x)) [(a, sa), (b, sb), (c, sc)])"
      and "\<forall>x\<in>set [(a, sa), (b, sb), (c, sc)]. valid_latitude (pos (fst x))"
      by simp_all
    from gen [OF this] h
    show "get_positions_of_interest great_circle [(a, sa), (b, sb), (c, sc)] = Inr [(pos a, 3)]"
      by (simp add: near_seed_def)
  next
    assume h: "distinct [bus_key a, bus_key b, bus_key c]
        \<and> valid_latitude (pos a) \<and> valid_latitude (pos b) \<and> valid_latitude (pos c)
        \<and> great_circle (pos a) (pos b) < 100 \<and> \<not> great_circle (pos a) (pos c) < 100"
    then have "distinct (map (\<lambda>x. bus_key (fst x)) [(a, sa), (b, sb), (c, sc)])"
      and "\<forall>x\<in>set [(a, sa), (b, sb), (c, sc)]. valid_latitude (pos (fst x))"
      by simp_all
    from gen [OF this] h
    show "get_positions_of_interest great_circle [(a, sa), (b, sb), (c, sc)]
            = Inr [(pos a, 2), (pos c, 1)]"
      by (simp add: near_seed_def)
  next
    assume h: "bus_key a \<noteq> bus_key b
        \<and> valid_latitude (pos a) \<and> valid_latitude (pos b)
        \<and> great_circle (pos a) (pos b) = 100"
    then have "distinct (map (\<lambda>x. bus_key (fst x)) [(a, sa), (b, sb)])"
      and "\<forall>x\<in>set [(a, sa), (b, sb)]. valid_latitude (pos (fst x))"
      by simp_all
    from gen [OF this] h
    show "get_positions_of_interest great_circle [(a, sa), (b, sb)]
            = Inr [(pos a, 1), (pos b, 1)]"
      by (simp add: near_seed_def)
  qed
qed

text \<open>
  Instances: three vehicles 11 metres apart in a row, three vehicles 56 metres apart in
  a row, two vehicles 56 metres apart, and two vehicles exactly 100 metres apart.
\<close>

theorem C5_seed_clustering_witness:
  "get_positions_of_interest taxicab_metres
     [(bus_at ''1000'' 0 52.0 21.0, Some 15), (bus_at ''2000'' 0 52.0001 21.0, Some 16),
      (bus_at ''3000'' 0 52.0002 21.0, Some 17)]
   = Inr [(\<lparr> lat = 52.0, lon = 21.0 \<rparr>, 3)]
   \<and> get_positions_of_interest taxicab_metres
       [(bus_at ''1000'' 0 52.0 21.0, Some 15), (bus_at ''2000'' 0 52.0005 21.0, Some 16),
        (bus_at ''3000'' 0 52.0010 21.0, Some 17)]
     = Inr [(\<lparr> lat = 52.0, lon = 21.0 \<rparr>, 2), (\<lparr> lat = 52.0010, lon = 21.0 \<rparr>, 1)]
   \<and> get_positions_of_interest taxicab_metres
       [(bus_at ''1000'' 0 52.0 21.0, Some 15), (bus_at ''2000'' 0 52.0005 21.0, Some 16)]
     = Inr (seed_clusters_spec taxicab_metres
         [(bus_at ''1000'' 0 52.0 21.0, Some 15), (bus_at ''2000'' 0 52.0005 21.0, Some 16)])
   \<and> get_positions_of_interest taxicab_metres
       [(bus_at ''1000'' 0 52.0 21.0, Some 15),
        (bus_at ''2000'' 0 (52.0 + 100 / 111195) 21.0, Some 16)]
     = Inr [(\<lparr> lat = 52.0, lon = 21.0 \<rparr>, 1),
            (\<lparr> lat = 52.0 + 100 / 111195, lon = 21.0 \<rparr>, 1)]"
proof -
  let ?a = "bus_at ''1000'' 0 52.0 21.0"
  let ?b = "bus_at ''2000'' 0 52.0001 21.0"
  let ?c = "bus_at ''3000'' 0 52.0002 21.0"
  let ?b' = "bus_at ''2000'' 0 52.0005 21.0"
  let ?c' = "bus_at ''3000'' 0 52.0010 21.0"
  let ?d = "bus_at ''2000'' 0 (52.0 + 100 / 111195) 21.0"
  have h1: "distinct [bus_key ?a, bus_key ?b, bus_key ?c]
        \<and> valid_latitude (pos ?a) \<and> valid_latitude (pos ?b) \<and> valid_latitude (pos ?c)
        \<and> taxicab_metres (pos ?a) (pos ?b) < 100 \<and> taxicab_metres (pos ?a) (pos ?c) < 100
        \<and> taxicab_metres (pos ?b) (pos ?c) < 100"
    by (simp add: bus_key_def taxicab_metres_def valid_latitude_def)
  have h2: "distinct [bus_key ?a, bus_key ?b', bus_key ?c']
        \<and> valid_latitude (pos ?a) \<and> valid_latitude (pos ?b') \<and> valid_latitude (pos ?c')
        \<and> taxicab_metres (pos ?a) (pos ?b') < 100 \<and> \<not> taxicab_metres (pos ?a) (pos ?c') < 100"
    by (simp add: bus_key_def taxicab_metres_def valid_latitude_def)
  have h3: "distinct (map (\<lambda>x. bus_key (fst x)) [(?a, Some (15::real)), (?b', Some 16)])
        \<and> (\<forall>x\<in>set [(?a, Some (15::real)), (?b', Some 16)]. valid_latitude (pos (fst x)))"
    by (simp add: bus_key_def valid_latitude_def)
  have h4: "bus_key ?a \<noteq> bus_key ?d
        \<and> valid_latitude (pos ?a) \<and> valid_latitude (pos ?d)
        \<and> taxicab_metres (pos ?a) (pos ?d) = 100"
    by (simp add: bus_key_def taxicab_metres_def valid_latitude_def)
  have p: "pos ?a = \<lparr> lat = 52.0, lon = 21.0 \<rparr>" "pos ?c' = \<lparr> lat = 52.0010, lon = 21.0 \<rparr>"
    "pos ?d = \<lparr> lat = 52.0 + 100 / 111195, lon = 21.0 \<rparr>"
    by simp_all
  note T1 = C5_seed_clustering [of "[]" taxicab_metres ?a ?b ?c "Some 15" "Some 16" "Some 17"]
  note T2 = C5_seed_clustering [of "[(?a, Some 15), (?b', Some 16)]" taxicab_metres ?a ?b' ?c'
              "Some 15" "Some 16" "Some 17"]
  note T3 = C5_seed_clustering [of "[]" taxicab_metres ?a ?d ?c "Some 15" "Some 16" "Some 17"]
  from T1 h1 have r1: "get_positions_of_interest taxicab_metres
      [(?a, Some 15), (?b, Some 16), (?c, Some 17)] = Inr [(pos ?a, 3)]" by blast
  from T2 h2 have r2: "get_positions_of_interest taxicab_metres
      [(?a, Some 15), (?b', Some 16), (?c', Some 17)] = Inr [(pos ?a, 2), (pos ?c', 1)]" by blast
  from T2 h3 have r3: "get_positions_of_interest taxicab_metres [(?a, Some 15), (?b', Some 16)]
      = Inr (seed_clusters_spec taxicab_metres [(?a, Some 15), (?b', Some 16)])" by blast
  from T3 h4 have r4: "get_positions_of_interest taxicab_metres [(?a, Some 15), (?d, Some 16)]
      = Inr [(pos ?a, 1), (pos ?d, 1)]" by blast
  from r1 r2 r3 r4 show ?thesis unfolding p by blast
qed

section \<open>Speed report\<close>

lemma speeding_condition:
  "(speed \<noteq> None \<and> mn < the speed \<and> (mx = None \<or> the speed < the mx))
     = in_open_band mn mx speed"
  by (cases speed; cases mx) (simp_all add: in_open_band_def)

lemma speeding_loop_set:
  "speeding_loop xs mn mx A
     = A \<union> {v. \<exists>x\<in>set xs. vehicle_number (fst x) = v \<and> in_open_band mn mx (snd x)}"
proof (induction xs arbitrary: A)
  case Nil
  then show ?case by simp
next
  case (Cons x xs)
  obtain r s where x: "x = (r, s)" by (cases x)
  have step: "speeding_loop (x # xs) mn mx A
                = (if vehicle_number r \<notin> A \<and> in_open_band mn mx s
                   then speeding_loop xs mn mx (insert (vehicle_number r) A)
                   else speeding_loop xs mn mx A)"
    using speeding_condition [of s mn mx] by (simp add: x)
  show ?case
    unfolding step Cons.IH by (auto simp: x)
qed

text \<open>
  One vehicle with one sample exactly at the lower bound of the band: it is not
  counted.
\<close>

theorem C7_closed_at_min_counterexample:
  "print_bus_speed_info [(bus_at ''1000'' 0 52.0 21.0, Some 10)] ''speeding'' 10 None
     = SpeedInfo 0 0 36"
  by (simp add: print_bus_speed_info_def)

text \<open>
  Claim C7, amended. For an empty input the report says that there are no such buses.
  For every non-empty input and every speed band with lower bound \<open>min\<close> and optional
  upper bound \<open>max\<close>, absent meaning unbounded above, the report counts a vehicle exactly
  when it has at least one sample whose speed is known and lies in the band open at both
  ends, strictly above \<open>min\<close> and strictly below \<open>max\<close>, and gives that count together
  with its percentage of the number of distinct vehicles in the input.
\<close>

theorem C7_speed_band_report:
  "print_bus_speed_info [] speed_type min_speed max_speed = NoBuses speed_type
   \<and> (bus_speeds \<noteq> [] \<longrightarrow>
        print_bus_speed_info bus_speeds speed_type min_speed max_speed
          = SpeedInfo
              (int (card {v. \<exists>x\<in>set bus_speeds. vehicle_number (fst x) = v
                              \<and> in_open_band min_speed max_speed (snd x)}))
              (real (card {v. \<exists>x\<in>set bus_speeds. vehicle_number (fst x) = v
                              \<and> in_open_band min_speed max_speed (snd x)})
                 / real (card ((\<lambda>x. vehicle_number (fst x)) ` set bus_speeds)) * 100)
              (min_speed * 3.6))"
  by (simp add: print_bus_speed_info_def speeding_loop_set Let_def)

text \<open>
  An instance: of two vehicles, one has a sample inside the band and the other a sample
  at its lower bound.
\<close>

theorem C7_speed_band_report_witness:
  "print_bus_speed_info
     [(bus_at ''1000'' 0 52.0 21.0, None), (bus_at ''1000'' 10000000 52.001 21.0, Some 15),
      (bus_at ''2000'' 0 52.0 21.0, None), (bus_at ''2000'' 10000000 52.0 21.0, Some 10)]
     ''speeding'' 10 (Some 25)
   = SpeedInfo 1 50 36"
proof -
  let ?bs = "[(bus_at ''1000'' 0 52.0 21.0, None), (bus_at ''1000'' 10000000 52.001 21.0, Some 15),
      (bus_at ''2000'' 0 52.0 21.0, None), (bus_at ''2000'' 10000000 52.0 21.0, Some (10::real))]"
  have ne: "?bs \<noteq> []" by simp
  have s: "{v. \<exists>x\<in>set ?bs. vehicle_number (fst x) = v \<and> in_open_band 10 (Some 25) (snd x)}
             = {''1000''}"
    by (auto simp: in_open_band_def)
  have a: "(\<lambda>x. vehicle_number (fst x)) ` set ?bs = {''1000'', ''2000''}"
    by auto
  from C7_speed_band_report [of "''speeding''" 10 "Some 25" ?bs, THEN conjunct2, rule_format, OF ne]
  show ?thesis
    unfolding s a by simp
qed

end
